theory Spec2Isabelle
  imports Complex_Main "HOL-Library.Sublist"
begin

section \<open>The evaluation runner (scripts/run-evals.ts)\<close>

text \<open>
  The script drives external tools: git, a coding agent, a build, a linter, a test runner and
  the d3k dev server.  What these tools answer is an input of the model (the record
  \<open>Env\<close>); what the script does to them is recorded in a trace of events.  An exception
  of the source is a value: \<open>Inl\<close> of the text that \<open>String(err)\<close> would give.

  The source file holds two revisions of the script; the model follows the first one, which
  has the full mode.  What the script prints is not modelled, nor is its \<open>debug\<close> flag,
  which only selects what is printed.  The time is in milliseconds and the duration of a run
  is a real number of seconds; the rounding of floating-point numbers is not modelled.
\<close>

subsection \<open>Data\<close>

definition MAX_FULL_ATTEMPTS :: nat where
  "MAX_FULL_ATTEMPTS = 3"

datatype Mode = FirstShot | Full

record EvalResult =
  name :: string
  build :: bool
  lint :: bool
  tests :: bool
  duration :: real
  attempts :: nat
  mode :: Mode
  error :: "string option"

text \<open>What a finished child process hands back: exit code and the two captured streams.\<close>

record CmdResult =
  exitCode :: int
  stdout :: string
  stderr :: string

datatype Gate = Build | Lint | Tests

text \<open>
  One pass through the body of the attempt: the prompt the agent was called with, what
  \<open>getD3kErrors\<close> returned, and the gates that ran, in the order they ran, each with
  the result of its process.
\<close>

record AttemptLog =
  attemptNo :: nat
  payload :: string
  browserErrors :: "string option"
  gates :: "(Gate \<times> CmdResult) list"

datatype Event =
    GitStash
  | CopyTest string string
  | CopyStub string string
  | ClearD3kLogs
  | D3kSpawn nat
  | D3kKill nat
  | Attempt AttemptLog
  | GitCheckout
  | GitClean
  | GitStashPop

text \<open>
  The answers of the outside world during one attempt.  \<open>Inl\<close> is a call that throws.
  \<open>d3kErrors\<close> is what \<open>getD3kErrors\<close> returns from the log of the dev server; it
  catches its own exceptions.
\<close>

record AttemptEnv =
  agentRun :: "string + CmdResult"
  d3kErrors :: "string option"
  buildRun :: "string + CmdResult"
  lintRun :: "string + CmdResult"
  testRun :: "string + CmdResult"

text \<open>
  The outside world.  \<open>gitFetch\<close> is the exception of \<open>fetchEvals\<close>, if it throws;
  \<open>evalsDirEntries\<close> are the lines that \<open>ls\<close> prints for the directory of the
  evaluations.  \<open>promptFile\<close> is what \<open>readFileSync\<close> gives for \<open>prompt.md\<close>, the
  content or the exception it throws, and \<open>None\<close> when the file does not exist.
  \<open>findTestFiles\<close> and \<open>findStubFiles\<close> are the lines that the two \<open>find\<close>
  commands print.  \<open>cacheFile\<close> is what \<open>cpSync\<close> reads at a source path:
  the content, or the exception it throws.  \<open>workingTree\<close> maps the paths of the files
  in the project checkout, once the local changes are stashed, to their contents.
  \<open>spawnD3k\<close> is the process that \<open>Bun.spawn\<close> starts for the dev server, or its
  exception.  From \<open>promptFile\<close> on, every field takes the evaluation name, so that a
  batch can meet a different world for each evaluation.  \<open>bunWrite\<close> tells whether the
  write of the summary to a path succeeds.
\<close>

record Env =
  PROJECT_ROOT :: string
  EVALS_CACHE :: string
  gitFetch :: "string option"
  evalsDirEntries :: "string list"
  promptFile :: "string \<Rightarrow> (string + string) option"
  inputDirExists :: "string \<Rightarrow> bool"
  findTestFiles :: "string \<Rightarrow> string list"
  findStubFiles :: "string \<Rightarrow> string list"
  cacheFile :: "string \<Rightarrow> string + string"
  workingTree :: "string \<Rightarrow> (string \<rightharpoonup> string)"
  spawnD3k :: "string \<Rightarrow> string + nat"
  d3kHealthy :: "string \<Rightarrow> nat \<Rightarrow> bool"
  attemptEnv :: "string \<Rightarrow> nat \<Rightarrow> AttemptEnv"
  startTime :: "string \<Rightarrow> int"
  endTime :: "string \<Rightarrow> int"
  bunWrite :: "string \<Rightarrow> bool"

text \<open>
  The state of the script: the module-level handle \<open>d3kProcess\<close> and the trace.
\<close>

record World =
  d3kProcess :: "nat option"
  trace :: "Event list"

definition emit :: "Event list \<Rightarrow> World \<Rightarrow> World" where
  "emit evs w = w\<lparr>trace := trace w @ evs\<rparr>"

subsection \<open>The d3k dev server\<close>

text \<open>
  \<open>startD3k\<close> polls \<open>http://localhost:3000\<close> at most 30 times; a poll succeeds when
  the response is ok or a 404, which is what \<open>d3kHealthy\<close> answers for poll \<open>i\<close>.
\<close>

function waitReady :: "Env \<Rightarrow> string \<Rightarrow> nat \<Rightarrow> bool" where
  "waitReady env evalName i =
     (if i < 30 then
        (if d3kHealthy env evalName i then True else waitReady env evalName (i + 1))
      else False)"
  by pat_completeness auto
termination
  by (relation "measure (\<lambda>(env, evalName, i). 30 - i)") auto

declare waitReady.simps [simp del]

definition startD3k :: "Env \<Rightarrow> string \<Rightarrow> World \<Rightarrow> World \<times> string option" where
  "startD3k env evalName w =
     (let w1 = emit [ClearD3kLogs] w in
      case spawnD3k env evalName of
        Inl e \<Rightarrow> (w1, Some e)
      | Inr pid \<Rightarrow>
          (let w2 = emit [D3kSpawn pid] (w1\<lparr>d3kProcess := Some pid\<rparr>) in
           if waitReady env evalName 0 then (w2, None)
           else (w2, Some ''Error: d3k server failed to start within 30s'')))"

definition stopD3k :: "World \<Rightarrow> World" where
  "stopD3k w =
     (case d3kProcess w of
        Some pid \<Rightarrow> (emit [D3kKill pid] w)\<lparr>d3kProcess := None\<rparr>
      | None \<Rightarrow> w)"

subsection \<open>Strings and paths\<close>

definition NL :: string where
  "NL = [CHR 0x0A]"

text \<open>\<open>s.replace(pat, rep)\<close> with a string pattern replaces the first occurrence only.\<close>

fun js_replace :: "string \<Rightarrow> string \<Rightarrow> string \<Rightarrow> string" where
  "js_replace [] pat rep = (if pat = [] then rep else [])"
| "js_replace (c # cs) pat rep =
     (if prefix pat (c # cs) then rep @ drop (length pat) (c # cs)
      else c # js_replace cs pat rep)"

fun js_includes :: "string \<Rightarrow> string \<Rightarrow> bool" where
  "js_includes [] pat = (pat = [])"
| "js_includes (c # cs) pat = (prefix pat (c # cs) \<or> js_includes cs pat)"

text \<open>\<open>xs.join(sep)\<close>\<close>

fun js_join :: "string \<Rightarrow> string list \<Rightarrow> string" where
  "js_join sep [] = []"
| "js_join sep [x] = x"
| "js_join sep (x # y # ys) = x @ sep @ js_join sep (y # ys)"

text \<open>
  \<open>s.trim()\<close>, for the white space of ASCII (space, tab, line feed, vertical tab, form
  feed, carriage return).
\<close>

definition isSpace :: "char \<Rightarrow> bool" where
  "isSpace c = (c \<in> set [CHR '' '', CHR 0x09, CHR 0x0A, CHR 0x0B, CHR 0x0C, CHR 0x0D])"

definition js_trim :: "string \<Rightarrow> string" where
  "js_trim s = rev (dropWhile isSpace (rev (dropWhile isSpace s)))"

text \<open>
  \<open>join(a, b)\<close> of the path module, for segments that need no normalisation (the script
  joins directories with relative paths below them).
\<close>

definition path_join :: "string \<Rightarrow> string \<Rightarrow> string" where
  "path_join a b = a @ ''/'' @ b"

text \<open>\<open>xs.filter(Boolean)\<close> on strings drops the empty ones.\<close>

definition filterBoolean :: "string list \<Rightarrow> string list" where
  "filterBoolean xs = filter (\<lambda>x. x \<noteq> []) xs"

subsection \<open>Finding an evaluation\<close>

definition isDigit :: "char \<Rightarrow> bool" where
  "isDigit c = (c \<in> set ''0123456789'')"

text \<open>The entries that match \<open>/^\d{3}-/\<close>.\<close>

definition evalNamePattern :: "string \<Rightarrow> bool" where
  "evalNamePattern e =
     (case e of
        a # b # c # d # _ \<Rightarrow> isDigit a \<and> isDigit b \<and> isDigit c \<and> d = CHR ''-''
      | _ \<Rightarrow> False)"

definition listEvals :: "Env \<Rightarrow> string list" where
  "listEvals env = filter evalNamePattern (evalsDirEntries env)"

definition getEvalPrompt :: "Env \<Rightarrow> string \<Rightarrow> string + string" where
  "getEvalPrompt env evalName =
     (case promptFile env evalName of
        None \<Rightarrow> Inl (''Error: Eval '' @ evalName @ '' not found'')
      | Some (Inl e) \<Rightarrow> Inl e
      | Some (Inr content) \<Rightarrow> Inr (js_trim content))"

definition getEvalTestFiles :: "Env \<Rightarrow> string \<Rightarrow> string list" where
  "getEvalTestFiles env evalName =
     (if \<not> inputDirExists env evalName then []
      else filterBoolean (findTestFiles env evalName))"

subsection \<open>Staging\<close>

text \<open>
  The working tree is a map from the path of a file to its content.  \<open>cpSync\<close> throws
  what the read of the source throws, and otherwise writes the destination, whether or not
  a file is there.  Directories are not part of the tree, so \<open>mkdirSync\<close> leaves it as it
  is.
\<close>

definition cpSync ::
  "Env \<Rightarrow> string \<Rightarrow> string \<Rightarrow> (string \<rightharpoonup> string) \<Rightarrow> string + (string \<rightharpoonup> string)" where
  "cpSync env src dest fs =
     (case cacheFile env src of
        Inl e \<Rightarrow> Inl e
      | Inr content \<Rightarrow> Inr (fs(dest \<mapsto> content)))"

definition destPathOf :: "Env \<Rightarrow> string \<Rightarrow> string \<Rightarrow> string" where
  "destPathOf env inputDir file =
     path_join (PROJECT_ROOT env) (js_replace file (inputDir @ ''/'') [])"

text \<open>The loop over \<open>testFiles\<close>: every test file is copied.\<close>

fun copyTestFiles ::
  "Env \<Rightarrow> string \<Rightarrow> string list \<Rightarrow> (string \<rightharpoonup> string)
     \<Rightarrow> (string \<rightharpoonup> string) \<times> Event list \<times> string option" where
  "copyTestFiles env inputDir [] fs = (fs, [], None)"
| "copyTestFiles env inputDir (testFile # rest) fs =
     (let destPath = destPathOf env inputDir testFile in
      case cpSync env testFile destPath fs of
        Inl e \<Rightarrow> (fs, [], Some e)
      | Inr fs1 \<Rightarrow>
          (case copyTestFiles env inputDir rest fs1 of
             (fs2, evs, fault) \<Rightarrow> (fs2, CopyTest testFile destPath # evs, fault)))"

text \<open>
  The loop over the stub files: a file whose path contains \<open>.test.\<close> is skipped, and any
  other is copied only if nothing exists at its destination.
\<close>

fun copyStubFiles ::
  "Env \<Rightarrow> string \<Rightarrow> string list \<Rightarrow> (string \<rightharpoonup> string)
     \<Rightarrow> (string \<rightharpoonup> string) \<times> Event list \<times> string option" where
  "copyStubFiles env inputDir [] fs = (fs, [], None)"
| "copyStubFiles env inputDir (stubFile # rest) fs =
     (if js_includes stubFile ''.test.'' then copyStubFiles env inputDir rest fs
      else
        (let destPath = destPathOf env inputDir stubFile in
         if fs destPath = None then
           (case cpSync env stubFile destPath fs of
              Inl e \<Rightarrow> (fs, [], Some e)
            | Inr fs1 \<Rightarrow>
                (case copyStubFiles env inputDir rest fs1 of
                   (fs2, evs, fault) \<Rightarrow> (fs2, CopyStub stubFile destPath # evs, fault)))
         else copyStubFiles env inputDir rest fs))"

definition inputDirOf :: "Env \<Rightarrow> string \<Rightarrow> string" where
  "inputDirOf env evalName =
     path_join (path_join (path_join (EVALS_CACHE env) ''evals'') evalName) ''input''"

text \<open>
  The first part of the \<open>try\<close> block of \<open>runEval\<close> and of \<open>runEvalFull\<close> (the same
  statements in both): the tree after staging, the copies made, and the exception, if one
  of the copies threw.
\<close>

definition stageFiles ::
  "Env \<Rightarrow> string \<Rightarrow> string list \<Rightarrow> (string \<rightharpoonup> string) \<times> Event list \<times> string option" where
  "stageFiles env evalName testFiles =
     (let inputDir = inputDirOf env evalName in
      case copyTestFiles env inputDir testFiles (workingTree env evalName) of
        (fs1, evs1, Some e) \<Rightarrow> (fs1, evs1, Some e)
      | (fs1, evs1, None) \<Rightarrow>
          (case copyStubFiles env inputDir (filterBoolean (findStubFiles env evalName)) fs1 of
             (fs2, evs2, fault) \<Rightarrow> (fs2, evs1 @ evs2, fault)))"

subsection \<open>Prompts and feedback\<close>

definition INSTRUCTIONS :: string where
  "INSTRUCTIONS =
     ''IMPORTANT: Do not run npm, pnpm, yarn, bun, or any package manager commands. '' @
     ''Dependencies have already been installed. Do not run build, test, or dev server '' @
     ''commands. Just write the code files. DO NOT ask any followup questions either.'' @
     NL @ NL @
     ''This is the opinionated-next project. Use the existing project structure:'' @ NL @
     ''- Use Biome for linting (not ESLint)'' @ NL @
     ''- Use explicit file extensions in imports (.ts for TypeScript, .tsx for TSX/JSX files)'' @
     NL @
     ''- Use subpath imports (#/) only when importing from src/ directory''"

definition withInstructions :: "string \<Rightarrow> string" where
  "withInstructions prompt = prompt @ NL @ NL @ INSTRUCTIONS"

definition feedbackSuffix :: "string \<Rightarrow> string" where
  "feedbackSuffix feedbackContext =
     NL @ NL @ ''PREVIOUS ATTEMPT FAILED. Here's the error from the browser/build:'' @ NL @
     feedbackContext @ NL @ NL @ ''Please fix the issue and try again.''"

text \<open>The prompt of an attempt of the full mode; an empty string is falsy.\<close>

definition composePrompt :: "string \<Rightarrow> string \<Rightarrow> string" where
  "composePrompt basePrompt feedbackContext =
     (if feedbackContext \<noteq> [] then withInstructions basePrompt @ feedbackSuffix feedbackContext
      else withInstructions basePrompt)"

definition buildFeedback :: "CmdResult \<Rightarrow> string" where
  "buildFeedback buildResult =
     ''Build failed:'' @ NL @ stderr buildResult @ NL @ stdout buildResult"

definition lintFeedback :: "CmdResult \<Rightarrow> string" where
  "lintFeedback lintResult =
     ''Lint failed:'' @ NL @ stderr lintResult @ NL @ stdout lintResult"

definition testsFeedback :: "CmdResult \<Rightarrow> string option \<Rightarrow> string" where
  "testsFeedback testProc browserErrs =
     (let allErrors =
        [stdout testProc, stderr testProc] @
        (case browserErrs of
           None \<Rightarrow> []
         | Some b \<Rightarrow> if b \<noteq> [] then [NL @ ''Browser console errors:'' @ NL @ b] else [])
      in ''Tests failed:'' @ NL @ js_join NL allErrors)"


subsection \<open>One attempt of the full mode\<close>

text \<open>
  How the body of the \<open>for\<close> loop ends: by \<open>continue\<close>, by \<open>break\<close>, by reaching its
  end, or by an exception.
\<close>

datatype Signal = Continue | Break | Next | Throw string

definition appendGate :: "Gate \<Rightarrow> CmdResult \<Rightarrow> AttemptLog \<Rightarrow> AttemptLog" where
  "appendGate g r alog = alog\<lparr>gates := gates alog @ [(g, r)]\<rparr>"

text \<open>The last statement of the body.\<close>

definition finishStage ::
  "EvalResult \<Rightarrow> string \<Rightarrow> AttemptLog \<Rightarrow> EvalResult \<times> string \<times> AttemptLog \<times> Signal" where
  "finishStage result feedbackContext alog =
     (result, feedbackContext, alog,
      if build result \<and> lint result \<and> tests result then Break else Next)"

text \<open>
  The test gate.  Before the tests the script installs the test tools with a command whose
  result it ignores; that command is not recorded.
\<close>

definition testsStage ::
  "Env \<Rightarrow> string \<Rightarrow> string list \<Rightarrow> nat \<Rightarrow> EvalResult \<Rightarrow> string \<Rightarrow> AttemptLog
     \<Rightarrow> EvalResult \<times> string \<times> AttemptLog \<times> Signal" where
  "testsStage env evalName testFiles attempt result feedbackContext alog =
     (if testFiles \<noteq> [] then
        (case testRun (attemptEnv env evalName attempt) of
           Inl e \<Rightarrow> (result, feedbackContext, alog, Throw e)
         | Inr testProc \<Rightarrow>
             (let result1 = result\<lparr>tests := (exitCode testProc = 0)\<rparr>;
                  log1 = appendGate Tests testProc alog
              in if \<not> tests result1 then
                   (let feedback1 = testsFeedback testProc (browserErrors alog) in
                    if attempt < MAX_FULL_ATTEMPTS then (result1, feedback1, log1, Continue)
                    else finishStage result1 feedback1 log1)
                 else finishStage result1 feedbackContext log1))
      else finishStage (result\<lparr>tests := True\<rparr>) feedbackContext alog)"

definition lintStage ::
  "Env \<Rightarrow> string \<Rightarrow> string list \<Rightarrow> nat \<Rightarrow> EvalResult \<Rightarrow> string \<Rightarrow> AttemptLog
     \<Rightarrow> EvalResult \<times> string \<times> AttemptLog \<times> Signal" where
  "lintStage env evalName testFiles attempt result feedbackContext alog =
     (case lintRun (attemptEnv env evalName attempt) of
        Inl e \<Rightarrow> (result, feedbackContext, alog, Throw e)
      | Inr lintResult \<Rightarrow>
          (let result1 = result\<lparr>lint := (exitCode lintResult = 0)\<rparr>;
               log1 = appendGate Lint lintResult alog
           in if \<not> lint result1 then
                (let feedback1 = lintFeedback lintResult in
                 if attempt < MAX_FULL_ATTEMPTS then (result1, feedback1, log1, Continue)
                 else testsStage env evalName testFiles attempt result1 feedback1 log1)
              else testsStage env evalName testFiles attempt result1 feedbackContext log1))"

definition buildStage ::
  "Env \<Rightarrow> string \<Rightarrow> string list \<Rightarrow> nat \<Rightarrow> EvalResult \<Rightarrow> string \<Rightarrow> AttemptLog
     \<Rightarrow> EvalResult \<times> string \<times> AttemptLog \<times> Signal" where
  "buildStage env evalName testFiles attempt result feedbackContext alog =
     (case buildRun (attemptEnv env evalName attempt) of
        Inl e \<Rightarrow> (result, feedbackContext, alog, Throw e)
      | Inr buildResult \<Rightarrow>
          (let result1 = result\<lparr>build := (exitCode buildResult = 0)\<rparr>;
               log1 = appendGate Build buildResult alog
           in if \<not> build result1 then
                (let feedback1 = buildFeedback buildResult in
                 if attempt < MAX_FULL_ATTEMPTS then (result1, feedback1, log1, Continue)
                 else lintStage env evalName testFiles attempt result1 feedback1 log1)
              else lintStage env evalName testFiles attempt result1 feedbackContext log1))"

text \<open>
  The body of the loop, from \<open>result.attempts = attempt\<close> on.  The log of the attempt
  exists as soon as the agent is called, also when that call throws.
\<close>

definition attemptBody ::
  "Env \<Rightarrow> string \<Rightarrow> string \<Rightarrow> string list \<Rightarrow> nat \<Rightarrow> EvalResult \<Rightarrow> string
     \<Rightarrow> EvalResult \<times> string \<times> AttemptLog \<times> Signal" where
  "attemptBody env evalName basePrompt testFiles attempt result0 feedbackContext =
     (let result = result0\<lparr>attempts := attempt\<rparr>;
          claudePrompt = composePrompt basePrompt feedbackContext;
          log0 = \<lparr>attemptNo = attempt, payload = claudePrompt, browserErrors = None, gates = []\<rparr>
      in case agentRun (attemptEnv env evalName attempt) of
           Inl e \<Rightarrow> (result, feedbackContext, log0, Throw e)
         | Inr claudeResult \<Rightarrow>
             buildStage env evalName testFiles attempt result feedbackContext
               (log0\<lparr>browserErrors := d3kErrors (attemptEnv env evalName attempt)\<rparr>))"

text \<open>
  \<open>for (let attempt = 1; attempt <= MAX_FULL_ATTEMPTS; attempt++)\<close>, entered at
  \<open>attempt\<close>: the result, the logs of the attempts made, and the exception, if any.
\<close>

function attemptLoop ::
  "Env \<Rightarrow> string \<Rightarrow> string \<Rightarrow> string list \<Rightarrow> nat \<Rightarrow> EvalResult \<Rightarrow> string
     \<Rightarrow> EvalResult \<times> AttemptLog list \<times> string option" where
  "attemptLoop env evalName basePrompt testFiles attempt result feedbackContext =
     (if attempt \<le> MAX_FULL_ATTEMPTS then
        (case attemptBody env evalName basePrompt testFiles attempt result feedbackContext of
           (result1, feedback1, alog, signal) \<Rightarrow>
             (case signal of
                Throw e \<Rightarrow> (result1, [alog], Some e)
              | Break \<Rightarrow> (result1, [alog], None)
              | _ \<Rightarrow>
                  (case attemptLoop env evalName basePrompt testFiles (attempt + 1)
                          result1 feedback1 of
                     (result2, logs, fault) \<Rightarrow> (result2, alog # logs, fault))))
      else (result, [], None))"
  by pat_completeness auto
termination
  by (relation "measure (\<lambda>(env, evalName, basePrompt, testFiles, attempt, result, fb).
        MAX_FULL_ATTEMPTS + 1 - attempt)") auto

declare attemptLoop.simps [simp del]

subsection \<open>The two runners\<close>

text \<open>The result record as the runners create it.\<close>

definition freshResult :: "string \<Rightarrow> nat \<Rightarrow> Mode \<Rightarrow> EvalResult" where
  "freshResult evalName n m =
     \<lparr>name = evalName, build = False, lint = False, tests = False, duration = 0,
      attempts = n, mode = m, error = None\<rparr>"

definition elapsed :: "Env \<Rightarrow> string \<Rightarrow> real" where
  "elapsed env evalName = real_of_int (endTime env evalName - startTime env evalName) / 1000"

definition recordFault :: "string option \<Rightarrow> EvalResult \<Rightarrow> EvalResult" where
  "recordFault fault result =
     (case fault of None \<Rightarrow> result | Some e \<Rightarrow> result\<lparr>error := Some e\<rparr>)"

definition restoreTree :: "World \<Rightarrow> World" where
  "restoreTree w = emit [GitCheckout, GitClean, GitStashPop] w"

text \<open>
  The one attempt of \<open>runEval\<close>: agent, build, lint, tests, with no test of a gate's
  result in between.
\<close>

definition firstShotAttempt ::
  "Env \<Rightarrow> string \<Rightarrow> string \<Rightarrow> string list \<Rightarrow> EvalResult
     \<Rightarrow> EvalResult \<times> AttemptLog \<times> string option" where
  "firstShotAttempt env evalName prompt testFiles result =
     (let ae = attemptEnv env evalName 1;
          log0 = \<lparr>attemptNo = 1, payload = withInstructions prompt, browserErrors = None,
                  gates = []\<rparr>
      in case agentRun ae of
           Inl e \<Rightarrow> (result, log0, Some e)
         | Inr claudeResult \<Rightarrow>
        (case buildRun ae of
           Inl e \<Rightarrow> (result, log0, Some e)
         | Inr buildResult \<Rightarrow>
        (let result1 = result\<lparr>build := (exitCode buildResult = 0)\<rparr>;
             log1 = appendGate Build buildResult log0
         in case lintRun ae of
              Inl e \<Rightarrow> (result1, log1, Some e)
            | Inr lintResult \<Rightarrow>
        (let result2 = result1\<lparr>lint := (exitCode lintResult = 0)\<rparr>;
             log2 = appendGate Lint lintResult log1
         in if testFiles \<noteq> [] then
              (case testRun ae of
                 Inl e \<Rightarrow> (result2, log2, Some e)
               | Inr testProc \<Rightarrow>
                   (result2\<lparr>tests := (exitCode testProc = 0)\<rparr>,
                    appendGate Tests testProc log2, None))
            else (result2\<lparr>tests := True\<rparr>, log2, None)))))"

text \<open>The \<open>try\<close> block of \<open>runEval\<close>.\<close>

definition runEvalTry ::
  "Env \<Rightarrow> World \<Rightarrow> string \<Rightarrow> string \<Rightarrow> string list \<Rightarrow> EvalResult
     \<Rightarrow> EvalResult \<times> World \<times> string option" where
  "runEvalTry env w evalName prompt testFiles result =
     (case stageFiles env evalName testFiles of
        (fs, copies, Some e) \<Rightarrow> (result, emit copies w, Some e)
      | (fs, copies, None) \<Rightarrow>
          (case firstShotAttempt env evalName prompt testFiles result of
             (result1, alog, fault) \<Rightarrow> (result1, emit (copies @ [Attempt alog]) w, fault)))"

text \<open>
  \<open>runEval\<close>.  The prompt is read before the \<open>try\<close>: when \<open>getEvalPrompt\<close> throws, so
  does \<open>runEval\<close>, and nothing has been done.  Otherwise the \<open>catch\<close> writes the
  exception into the result and the \<open>finally\<close> restores the tree.
\<close>

definition runEval :: "Env \<Rightarrow> World \<Rightarrow> string \<Rightarrow> (string + EvalResult) \<times> World" where
  "runEval env w evalName =
     (let result = freshResult evalName 1 FirstShot
      in case getEvalPrompt env evalName of
           Inl e \<Rightarrow> (Inl e, w)
         | Inr prompt \<Rightarrow>
             (let testFiles = getEvalTestFiles env evalName in
              case runEvalTry env (emit [GitStash] w) evalName prompt testFiles result of
                (result1, w1, fault) \<Rightarrow>
                  (Inr ((recordFault fault result1)\<lparr>duration := elapsed env evalName\<rparr>),
                   restoreTree w1)))"

text \<open>The \<open>try\<close> block of \<open>runEvalFull\<close>.\<close>

definition runEvalFullTry ::
  "Env \<Rightarrow> World \<Rightarrow> string \<Rightarrow> string \<Rightarrow> string list \<Rightarrow> EvalResult
     \<Rightarrow> EvalResult \<times> World \<times> string option" where
  "runEvalFullTry env w evalName basePrompt testFiles result =
     (case stageFiles env evalName testFiles of
        (fs, copies, Some e) \<Rightarrow> (result, emit copies w, Some e)
      | (fs, copies, None) \<Rightarrow>
          (case startD3k env evalName (emit copies w) of
             (w1, Some e) \<Rightarrow> (result, w1, Some e)
           | (w1, None) \<Rightarrow>
               (case attemptLoop env evalName basePrompt testFiles 1 result [] of
                  (result1, logs, fault) \<Rightarrow> (result1, emit (map Attempt logs) w1, fault))))"

definition runEvalFull :: "Env \<Rightarrow> World \<Rightarrow> string \<Rightarrow> (string + EvalResult) \<times> World" where
  "runEvalFull env w evalName =
     (let result = freshResult evalName 0 Full
      in case getEvalPrompt env evalName of
           Inl e \<Rightarrow> (Inl e, w)
         | Inr basePrompt \<Rightarrow>
             (let testFiles = getEvalTestFiles env evalName in
              case runEvalFullTry env (emit [GitStash] w) evalName basePrompt testFiles result of
                (result1, w1, fault) \<Rightarrow>
                  (Inr ((recordFault fault result1)\<lparr>duration := elapsed env evalName\<rparr>),
                   restoreTree (stopD3k w1))))"


subsection \<open>The JSON summary\<close>

text \<open>
  The values that \<open>writeJsonResults\<close> builds, and the JSON documents that
  \<open>JSON.stringify\<close> makes of them: a property whose value is \<open>undefined\<close> is left out of
  its object, an \<open>undefined\<close> element of an array becomes \<open>null\<close>.
\<close>

datatype jsval =
    VUndefined
  | VBool bool
  | VNum int
  | VStr string
  | VArr "jsval list"
  | VObj "(string \<times> jsval) list"

datatype json =
    JNull
  | JBool bool
  | JNum int
  | JStr string
  | JArr "json list"
  | JObj "(string \<times> json) list"

fun stringify :: "jsval \<Rightarrow> json option" where
  "stringify VUndefined = None"
| "stringify (VBool b) = Some (JBool b)"
| "stringify (VNum n) = Some (JNum n)"
| "stringify (VStr s) = Some (JStr s)"
| "stringify (VArr xs) =
     Some (JArr (map (\<lambda>x. case stringify x of None \<Rightarrow> JNull | Some j \<Rightarrow> j) xs))"
| "stringify (VObj kvs) =
     Some (JObj (concat (map (\<lambda>kv. case stringify (snd kv) of
                                        None \<Rightarrow> []
                                      | Some j \<Rightarrow> [(fst kv, j)]) kvs)))"

text \<open>\<open>Math.round\<close>: the nearest integer, a half rounded up.\<close>

definition js_round :: "real \<Rightarrow> int" where
  "js_round x = \<lfloor>x + 1 / 2\<rfloor>"

definition modeString :: "Mode \<Rightarrow> string" where
  "modeString m = (case m of FirstShot \<Rightarrow> ''first-shot'' | Full \<Rightarrow> ''full'')"

definition jsonResult :: "EvalResult \<Rightarrow> jsval" where
  "jsonResult r =
     VObj [(''evalPath'', VStr (name r)),
           (''mode'', VStr (modeString (mode r))),
           (''result'',
            VObj [(''success'', VBool (build r \<and> lint r \<and> tests r)),
                  (''buildSuccess'', VBool (build r)),
                  (''lintSuccess'', VBool (lint r)),
                  (''testSuccess'', VBool (tests r)),
                  (''attempts'', VNum (int (attempts r))),
                  (''duration'', VNum (js_round (duration r * 1000))),
                  (''error'', case error r of None \<Rightarrow> VUndefined | Some e \<Rightarrow> VStr e)])]"

text \<open>
  The file that \<open>writeJsonResults\<close> leaves: its path and the document in it, or none when
  the write fails.  The script does not wait for the write, so a failure of the write does
  not reach \<open>main\<close>.
\<close>

definition writeJsonResults ::
  "Env \<Rightarrow> EvalResult list \<Rightarrow> string \<Rightarrow> (string \<times> json) option" where
  "writeJsonResults env results outputPath =
     (if bunWrite env outputPath
      then map_option (Pair outputPath) (stringify (VArr (map jsonResult results)))
      else None)"

subsection \<open>The command line\<close>

text \<open>\<open>args[args.indexOf("--output") + 1]\<close>, when \<open>"--output"\<close> is among the arguments.\<close>

fun outputFileOf :: "string list \<Rightarrow> string option" where
  "outputFileOf [] = None"
| "outputFileOf (arg # rest) =
     (if arg = ''--output'' then (case rest of [] \<Rightarrow> None | path # _ \<Rightarrow> Some path)
      else outputFileOf rest)"

text \<open>The first argument that is neither a flag nor the value of \<open>--output\<close>.\<close>

fun findEvalName :: "string list \<Rightarrow> string option" where
  "findEvalName [] = None"
| "findEvalName (arg # rest) =
     (if prefix ''--'' arg then
        (if arg = ''--output'' then findEvalName (drop 1 rest) else findEvalName rest)
      else Some arg)"

text \<open>The loop of \<open>main\<close> over \<open>evalsToRun\<close>; an exception of a runner leaves the loop.\<close>

fun runEvals ::
  "Env \<Rightarrow> bool \<Rightarrow> World \<Rightarrow> string list \<Rightarrow> EvalResult list
     \<Rightarrow> (string + EvalResult list) \<times> World" where
  "runEvals env fullMode w [] results = (Inr results, w)"
| "runEvals env fullMode w (nm # rest) results =
     (case (if fullMode then runEvalFull env w nm else runEval env w nm) of
        (Inl e, w1) \<Rightarrow> (Inl e, w1)
      | (Inr result, w1) \<Rightarrow> runEvals env fullMode w1 rest (results @ [result]))"

text \<open>
  \<open>main\<close>: the exception it ends with, or the results and the file written (none when
  the usage is printed); and the world it leaves.
\<close>

definition main ::
  "Env \<Rightarrow> string list \<Rightarrow> World
     \<Rightarrow> (string + EvalResult list \<times> (string \<times> json) option) \<times> World" where
  "main env args w =
     (let runAll = (''--all'' \<in> set args);
          fullMode = (''--full'' \<in> set args);
          outputFile = outputFileOf args;
          evalName = findEvalName args
      in case gitFetch env of
           Some e \<Rightarrow> (Inl e, w)
         | None \<Rightarrow>
             (let evals = listEvals env in
              if \<not> (runAll \<or> (case evalName of None \<Rightarrow> False | Some n \<Rightarrow> n \<noteq> [])) then
                (Inr ([], None), w)
              else
                (let evalsToRun =
                       (if runAll then evals
                        else (case evalName of None \<Rightarrow> [] | Some n \<Rightarrow> [n])) in
                 case runEvals env fullMode w evalsToRun [] of
                   (Inl e, w1) \<Rightarrow> (Inl e, w1)
                 | (Inr results, w1) \<Rightarrow>
                     (case outputFile of
                        None \<Rightarrow> (Inr (results, None), w1)
                      | Some path \<Rightarrow>
                          if path \<noteq> [] then (Inr (results, writeJsonResults env results path), w1)
                          else (Inr (results, None), w1)))))"


subsection \<open>Sample worlds\<close>

text \<open>
  A world with two evaluations, each with one test file and one stub file, in which every
  tool succeeds; and the results of a tool that succeeds and of one that fails.
\<close>

definition okResult :: CmdResult where
  "okResult = \<lparr>exitCode = 0, stdout = ''ok'', stderr = []\<rparr>"

definition badResult :: CmdResult where
  "badResult = \<lparr>exitCode = 1, stdout = ''out'', stderr = ''err''\<rparr>"

definition passing :: AttemptEnv where
  "passing = \<lparr>agentRun = Inr okResult, d3kErrors = None, buildRun = Inr okResult,
               lintRun = Inr okResult, testRun = Inr okResult\<rparr>"

definition demoEnv :: Env where
  "demoEnv =
     \<lparr>PROJECT_ROOT = ''/p'',
      EVALS_CACHE = ''/c'',
      gitFetch = None,
      evalsDirEntries = [''001-a'', ''003-add-route'', ''README.md''],
      promptFile = (\<lambda>n. Some (Inr ('' Add a route.'' @ NL))),
      inputDirExists = (\<lambda>n. True),
      findTestFiles = (\<lambda>n. [''/c/evals/'' @ n @ ''/input/a.test.ts'']),
      findStubFiles = (\<lambda>n. [''/c/evals/'' @ n @ ''/input/a.test.ts'',
                               ''/c/evals/'' @ n @ ''/input/a.ts'']),
      cacheFile = (\<lambda>p. Inr ''new''),
      workingTree = (\<lambda>n. Map.empty),
      spawnD3k = (\<lambda>n. Inr 7),
      d3kHealthy = (\<lambda>n i. 2 \<le> i),
      attemptEnv = (\<lambda>n k. passing),
      startTime = (\<lambda>n. 1000),
      endTime = (\<lambda>n. 3500),
      bunWrite = (\<lambda>p. True)\<rparr>"

definition world0 :: World where
  "world0 = \<lparr>d3kProcess = None, trace = []\<rparr>"


text \<open>
  Variants of that world: the build always fails; the build fails in the first attempt only;
  the dev server never answers; no file of the cache can be read; the prompt of the first
  evaluation is missing.
\<close>

definition buildFailsEnv :: Env where
  "buildFailsEnv = demoEnv\<lparr>attemptEnv := \<lambda>n k. passing\<lparr>buildRun := Inr badResult\<rparr>\<rparr>"

definition retryEnv :: Env where
  "retryEnv =
     demoEnv\<lparr>attemptEnv := \<lambda>n k. if k = 1 then passing\<lparr>buildRun := Inr badResult\<rparr> else passing\<rparr>"

definition timeoutEnv :: Env where
  "timeoutEnv = demoEnv\<lparr>d3kHealthy := \<lambda>n i. False\<rparr>"

definition unreadableEnv :: Env where
  "unreadableEnv = demoEnv\<lparr>cacheFile := \<lambda>p. Inl ''Error: EACCES''\<rparr>"

definition missingPromptEnv :: Env where
  "missingPromptEnv =
     demoEnv\<lparr>promptFile := \<lambda>n. if n = ''001-a'' then None else Some (Inr ''Add a route.'')\<rparr>"

definition testThrowsEnv :: Env where
  "testThrowsEnv = demoEnv\<lparr>attemptEnv := \<lambda>n k. passing\<lparr>testRun := Inl ''Error: spawn failed''\<rparr>\<rparr>"

definition overwriteEnv :: Env where
  "overwriteEnv =
     demoEnv\<lparr>workingTree := \<lambda>n. [''/p/a.test.ts'' \<mapsto> ''old'', ''/p/a.ts'' \<mapsto> ''mine'']\<rparr>"

text \<open>
  More variants: the prompt of the first evaluation exists and cannot be read; the dev
  server cannot be spawned; the summary cannot be written; the tests fail in the first
  attempt, with an error in the log of the dev server; the build fails in the first attempt
  and the lint in the second.
\<close>

definition unreadablePromptEnv :: Env where
  "unreadablePromptEnv =
     demoEnv\<lparr>promptFile := \<lambda>n. if n = ''001-a'' then Some (Inl ''Error: EACCES: prompt.md'')
                                else Some (Inr ''Add a route.'')\<rparr>"

definition spawnFailsEnv :: Env where
  "spawnFailsEnv = demoEnv\<lparr>spawnD3k := \<lambda>n. Inl ''Error: ENOENT: bun''\<rparr>"

definition writeFailsEnv :: Env where
  "writeFailsEnv = demoEnv\<lparr>bunWrite := \<lambda>p. False\<rparr>"

definition browserEnv :: Env where
  "browserEnv =
     demoEnv\<lparr>attemptEnv := \<lambda>n k.
        if k = 1 then passing\<lparr>d3kErrors := Some ''boom'', testRun := Inr badResult\<rparr>
        else passing\<rparr>"

definition lintBad :: CmdResult where
  "lintBad = \<lparr>exitCode = 2, stdout = ''lint out'', stderr = ''lint err''\<rparr>"

definition twoFailuresEnv :: Env where
  "twoFailuresEnv =
     demoEnv\<lparr>attemptEnv := \<lambda>n k.
        if k = 1 then passing\<lparr>buildRun := Inr badResult\<rparr>
        else if k = 2 then passing\<lparr>lintRun := Inr lintBad\<rparr>
        else passing\<rparr>"

subsection \<open>Notions used in the statements\<close>

text \<open>The events that a run added to the trace, and the attempts among them.\<close>

definition newEvents :: "World \<Rightarrow> World \<Rightarrow> Event list" where
  "newEvents w w1 = drop (length (trace w)) (trace w1)"

fun attemptLogs :: "Event list \<Rightarrow> AttemptLog list" where
  "attemptLogs [] = []"
| "attemptLogs (Attempt l # evs) = l # attemptLogs evs"
| "attemptLogs (e # evs) = attemptLogs evs"

text \<open>The result record that a run produces, if it does not end with an exception.\<close>

definition outcome :: "(string + EvalResult) \<times> World \<Rightarrow> EvalResult option" where
  "outcome x = (case fst x of Inl e \<Rightarrow> None | Inr r \<Rightarrow> Some r)"

text \<open>
  The two ways in which a full run ends before its first attempt: a copy of the staging
  throws, or the dev server cannot be spawned or does not become ready.
\<close>

definition stagingFails :: "Env \<Rightarrow> string \<Rightarrow> bool" where
  "stagingFails env n = (snd (snd (stageFiles env n (getEvalTestFiles env n))) \<noteq> None)"

definition monitorFails :: "Env \<Rightarrow> string \<Rightarrow> bool" where
  "monitorFails env n =
     (case spawnD3k env n of Inl e \<Rightarrow> True | Inr pid \<Rightarrow> \<not> waitReady env n 0)"

text \<open>The overall verdict on a result, as \<open>printResults\<close> and \<open>writeJsonResults\<close> form it.\<close>

definition success :: "EvalResult \<Rightarrow> bool" where
  "success r = (build r \<and> lint r \<and> tests r)"

text \<open>
  A gate failed when its process did not exit with 0.  The first failing gate of an
  attempt is the first one in its log that failed.
\<close>

definition failed :: "Gate \<times> CmdResult \<Rightarrow> bool" where
  "failed gr = (exitCode (snd gr) \<noteq> 0)"

definition firstFailure :: "AttemptLog \<Rightarrow> (Gate \<times> CmdResult) option" where
  "firstFailure l = find failed (gates l)"

text \<open>What the outside world answers when a gate is run in an attempt.\<close>

definition gateRun :: "Gate \<Rightarrow> AttemptEnv \<Rightarrow> string + CmdResult" where
  "gateRun g ae = (case g of Build \<Rightarrow> buildRun ae | Lint \<Rightarrow> lintRun ae | Tests \<Rightarrow> testRun ae)"

text \<open>
  The failure text of a gate, as the next prompt is expected to carry it: a line that names
  the gate, then the two streams of its process (the error stream first for the build and
  for the lint, the output stream first for the tests), and after the streams of the tests
  the browser errors of the attempt, when there are any.
\<close>

definition failureText :: "Gate \<Rightarrow> CmdResult \<Rightarrow> string option \<Rightarrow> string" where
  "failureText g res browserErrs =
     (case g of
        Build \<Rightarrow> ''Build failed:'' @ NL @ stderr res @ NL @ stdout res
      | Lint \<Rightarrow> ''Lint failed:'' @ NL @ stderr res @ NL @ stdout res
      | Tests \<Rightarrow>
          ''Tests failed:'' @ NL @ stdout res @ NL @ stderr res @
          (case browserErrs of
             None \<Rightarrow> []
           | Some b \<Rightarrow> if b = [] then [] else NL @ NL @ ''Browser console errors:'' @ NL @ b))"

text \<open>The gates of an attempt in which no gate is skipped: the tests only if there are test files.\<close>

definition allGates :: "string list \<Rightarrow> Gate list" where
  "allGates testFiles = (if testFiles \<noteq> [] then [Build, Lint, Tests] else [Build, Lint])"

definition allGatesPassed :: "string list \<Rightarrow> AttemptLog \<Rightarrow> bool" where
  "allGatesPassed testFiles l =
     (map fst (gates l) = allGates testFiles \<and> list_all (\<lambda>gr. \<not> failed gr) (gates l))"

text \<open>
  The exceptions of the outside world that a run can meet, read off the environment alone.
  Staging reads every test file, and then every stub file that is not a test file and whose
  destination is free when its turn comes; the paths of the working tree, the destinations
  of the test files and those of the stub files copied before it are taken.  The exception
  of staging is that of the first read that throws.
\<close>

fun firstThrow :: "(string + 'a) list \<Rightarrow> string option" where
  "firstThrow [] = None"
| "firstThrow (Inl e # xs) = Some e"
| "firstThrow (Inr v # xs) = firstThrow xs"

fun stubsRead :: "(string \<Rightarrow> string) \<Rightarrow> string set \<Rightarrow> string list \<Rightarrow> string list" where
  "stubsRead dest taken [] = []"
| "stubsRead dest taken (s # rest) =
     (if js_includes s ''.test.'' \<or> dest s \<in> taken then stubsRead dest taken rest
      else s # stubsRead dest (insert (dest s) taken) rest)"

definition stagingReads :: "Env \<Rightarrow> string \<Rightarrow> string list" where
  "stagingReads env n =
     (let dest = destPathOf env (inputDirOf env n);
          testFiles = getEvalTestFiles env n
      in testFiles @
         stubsRead dest (dom (workingTree env n) \<union> dest ` set testFiles)
           (filterBoolean (findStubFiles env n)))"

definition stagingThrow :: "Env \<Rightarrow> string \<Rightarrow> string option" where
  "stagingThrow env n = firstThrow (map (cacheFile env) (stagingReads env n))"

text \<open>
  The exception of the start of the monitor: that of the spawn, or the time-out when none of
  the 30 polls finds the server healthy.
\<close>

definition monitorThrow :: "Env \<Rightarrow> string \<Rightarrow> string option" where
  "monitorThrow env n =
     (case spawnD3k env n of
        Inl e \<Rightarrow> Some e
      | Inr pid \<Rightarrow>
          if \<exists>i<30. d3kHealthy env n i then None
          else Some ''Error: d3k server failed to start within 30s'')"

text \<open>
  The exception raised in an attempt: that of the call of the agent, or else that of the
  first gate that throws among the gates that run.  With \<open>skipping\<close>, a gate that fails
  ends the attempt, so that the gates after it do not run; the tests run only if there are
  test files.
\<close>

definition attemptThrow :: "bool \<Rightarrow> bool \<Rightarrow> AttemptEnv \<Rightarrow> string option" where
  "attemptThrow skipping hasTests ae =
     (case agentRun ae of
        Inl e \<Rightarrow> Some e
      | Inr a \<Rightarrow>
     (case buildRun ae of
        Inl e \<Rightarrow> Some e
      | Inr b \<Rightarrow>
          if skipping \<and> exitCode b \<noteq> 0 then None
          else
     (case lintRun ae of
        Inl e \<Rightarrow> Some e
      | Inr l \<Rightarrow>
          if skipping \<and> exitCode l \<noteq> 0 then None
          else if hasTests then (case testRun ae of Inl e \<Rightarrow> Some e | Inr t \<Rightarrow> None)
          else None)))"

text \<open>
  The exception raised in a started attempt of a run.  Only the full mode skips gates, and
  only before its last allowed attempt.
\<close>

definition thrownIn :: "Env \<Rightarrow> string \<Rightarrow> Mode \<Rightarrow> AttemptLog \<Rightarrow> string option" where
  "thrownIn env n m l =
     attemptThrow (m = Full \<and> attemptNo l < MAX_FULL_ATTEMPTS) (getEvalTestFiles env n \<noteq> [])
       (attemptEnv env n (attemptNo l))"

text \<open>
  The staging or infrastructure error of an evaluation: the exception of staging, or else,
  in the full mode, that of the start of the monitor.
\<close>

definition infraFault :: "Env \<Rightarrow> bool \<Rightarrow> string \<Rightarrow> string option" where
  "infraFault env fullMode n =
     (case stagingThrow env n of
        Some e \<Rightarrow> Some e
      | None \<Rightarrow> if fullMode then monitorThrow env n else None)"

text \<open>
  Whether a gate passed when it was last observed in the attempts of a run; \<open>None\<close> when
  the gate never ran to its end.
\<close>

fun lastObserved :: "Gate \<Rightarrow> AttemptLog list \<Rightarrow> bool option" where
  "lastObserved g [] = None"
| "lastObserved g (l # ls) =
     (case lastObserved g ls of
        Some b \<Rightarrow> Some b
      | None \<Rightarrow> map_option (\<lambda>res. exitCode res = 0) (map_of (gates l) g))"

text \<open>The three commands that restore the working tree.\<close>

definition restoreCommands :: "Event list" where
  "restoreCommands = [GitCheckout, GitClean, GitStashPop]"

text \<open>
  The object that the summary holds for a result: its name, its mode, and a result object
  with the verdict, the three gates, the attempts and the duration in milliseconds, and
  with the error if there is one.
\<close>

definition resultDoc :: "EvalResult \<Rightarrow> json" where
  "resultDoc r =
     JObj [(''evalPath'', JStr (name r)),
           (''mode'', JStr (modeString (mode r))),
           (''result'',
            JObj ([(''success'', JBool (success r)),
                   (''buildSuccess'', JBool (build r)),
                   (''lintSuccess'', JBool (lint r)),
                   (''testSuccess'', JBool (tests r)),
                   (''attempts'', JNum (int (attempts r))),
                   (''duration'', JNum (js_round (duration r * 1000)))] @
                  (case error r of None \<Rightarrow> [] | Some e \<Rightarrow> [(''error'', JStr e)])))]"

text \<open>The content that \<open>cpSync\<close> reads at a source path, if the read succeeds.\<close>

definition contentOf :: "Env \<Rightarrow> string \<Rightarrow> string option" where
  "contentOf env src = (case cacheFile env src of Inl e \<Rightarrow> None | Inr c \<Rightarrow> Some c)"

section \<open>Properties\<close>

subsection \<open>Stopping the monitor\<close>

lemma stopD3k_None: "d3kProcess w = None \<Longrightarrow> stopD3k w = w"
  by (simp add: stopD3k_def)

lemma stopD3k_handle: "d3kProcess (stopD3k w) = None"
  by (simp add: stopD3k_def emit_def split: option.split)

lemma startD3k_spawned:
  "spawnD3k env evalName = Inr pid \<Longrightarrow>
   d3kProcess (fst (startD3k env evalName w)) = Some pid \<and>
   trace (fst (startD3k env evalName w)) = trace w @ [ClearD3kLogs, D3kSpawn pid]"
  by (simp add: startD3k_def emit_def Let_def)

text \<open>
  C10.  Once \<open>startD3k\<close> has spawned the dev server as process \<open>pid\<close> (whether or not the
  server then became ready), the first \<open>stopD3k\<close> kills exactly that process and clears
  the handle; a second \<open>stopD3k\<close> changes nothing, and neither does a \<open>stopD3k\<close> while the
  handle is empty.
\<close>

theorem stopD3k_idempotent:
  "(spawnD3k env evalName = Inr pid \<longrightarrow>
      d3kProcess (fst (startD3k env evalName w)) = Some pid \<and>
      trace (stopD3k (fst (startD3k env evalName w)))
        = trace (fst (startD3k env evalName w)) @ [D3kKill pid] \<and>
      d3kProcess (stopD3k (fst (startD3k env evalName w))) = None \<and>
      stopD3k (stopD3k (fst (startD3k env evalName w)))
        = stopD3k (fst (startD3k env evalName w))) \<and>
   (d3kProcess w = None \<longrightarrow> stopD3k w = w) \<and>
   stopD3k (stopD3k w) = stopD3k w"
proof -
  have twice: "stopD3k (stopD3k v) = stopD3k v" for v
    by (rule stopD3k_None) (rule stopD3k_handle)
  have "trace (stopD3k v) = trace v @ [D3kKill pid]" if "d3kProcess v = Some pid" for v
    using that by (simp add: stopD3k_def emit_def)
  with twice show ?thesis
    by (auto simp: startD3k_spawned stopD3k_handle stopD3k_None)
qed

theorem stopD3k_idempotent_witness:
  "spawnD3k demoEnv ''001-a'' = Inr 7 \<and>
   d3kProcess world0 = None \<and>
   d3kProcess (fst (startD3k demoEnv ''001-a'' world0)) = Some 7 \<and>
   trace (stopD3k (fst (startD3k demoEnv ''001-a'' world0)))
     = trace (fst (startD3k demoEnv ''001-a'' world0)) @ [D3kKill 7] \<and>
   d3kProcess (stopD3k (fst (startD3k demoEnv ''001-a'' world0))) = None \<and>
   stopD3k (stopD3k (fst (startD3k demoEnv ''001-a'' world0)))
     = stopD3k (fst (startD3k demoEnv ''001-a'' world0)) \<and>
   stopD3k world0 = world0"
proof -
  have h1: "spawnD3k demoEnv ''001-a'' = Inr 7"
    by (simp add: demoEnv_def)
  have h2: "d3kProcess world0 = None"
    by (simp add: world0_def)
  show ?thesis
    using h1 h2 stopD3k_idempotent [of demoEnv "''001-a''" 7 world0] by blast
qed

subsection \<open>Staging\<close>

lemma copyStubFiles_keeps:
  "fs0 p = Some c \<Longrightarrow> fst (copyStubFiles env d stubs fs0) p = Some c"
proof (induction stubs arbitrary: fs0)
  case Nil
  then show ?case by simp
next
  case (Cons a stubs)
  have same: "fst (copyStubFiles env d stubs fs0) p = Some c"
    by (rule Cons.IH) (rule Cons.prems)
  have upd: "fst (copyStubFiles env d stubs (fs0(destPathOf env d a \<mapsto> x))) p = Some c"
    if "fs0 (destPathOf env d a) = None" for x
    by (rule Cons.IH) (use that Cons.prems in auto)
  show ?case
    by (auto simp: cpSync_def Let_def split_beta same upd Cons.prems split: sum.splits)
qed

lemma copyStubFiles_guard:
  "fs0 dst \<noteq> None \<Longrightarrow> CopyStub s dst \<notin> set (fst (snd (copyStubFiles env d stubs fs0)))"
proof (induction stubs arbitrary: fs0)
  case Nil
  then show ?case by simp
next
  case (Cons a stubs)
  have same: "CopyStub s dst \<notin> set (fst (snd (copyStubFiles env d stubs fs0)))"
    by (rule Cons.IH) (rule Cons.prems)
  have upd: "CopyStub s dst
      \<notin> set (fst (snd (copyStubFiles env d stubs (fs0(destPathOf env d a \<mapsto> x)))))" for x
    by (rule Cons.IH) (use Cons.prems in auto)
  show ?case
    using Cons.prems
    by (auto simp: cpSync_def Let_def split_beta same upd split: sum.splits)
qed

lemma copyStubFiles_events:
  "CopyTest s dst \<notin> set (fst (snd (copyStubFiles env d stubs fs0)))"
  by (induction stubs arbitrary: fs0)
     (auto simp: cpSync_def Let_def split_beta split: sum.splits)

lemma copyTestFiles_frame:
  "p \<notin> destPathOf env d ` set ts \<Longrightarrow> fst (copyTestFiles env d ts fs0) p = fs0 p"
  by (induction ts arbitrary: fs0)
     (auto simp: cpSync_def Let_def split_beta split: sum.splits)

lemma copyTestFiles_grows:
  "fs0 p \<noteq> None \<Longrightarrow> fst (copyTestFiles env d ts fs0) p \<noteq> None"
proof (induction ts arbitrary: fs0)
  case Nil
  then show ?case by simp
next
  case (Cons a ts)
  have upd: "fst (copyTestFiles env d ts (fs0(destPathOf env d a \<mapsto> x))) p \<noteq> None" for x
    by (rule Cons.IH) (use Cons.prems in auto)
  show ?case
    using Cons.prems upd by (auto simp: cpSync_def Let_def split_beta split: sum.splits)
qed

lemma copyTestFiles_events:
  "CopyStub s dst \<notin> set (fst (snd (copyTestFiles env d ts fs0)))"
  by (induction ts arbitrary: fs0)
     (auto simp: cpSync_def Let_def split_beta split: sum.splits)

lemma copyTestFiles_copied:
  "CopyTest s dst \<in> set (fst (snd (copyTestFiles env d ts fs0))) \<Longrightarrow>
   fst (copyTestFiles env d ts fs0) dst \<noteq> None"
proof (induction ts arbitrary: fs0)
  case Nil
  then show ?case by simp
next
  case (Cons a ts)
  have here: "fst (copyTestFiles env d ts (fs0(destPathOf env d a \<mapsto> x))) (destPathOf env d a)
      \<noteq> None" for x
    by (rule copyTestFiles_grows) simp
  show ?case
    using Cons.prems Cons.IH here
    by (auto simp: cpSync_def Let_def split_beta split: sum.splits)
qed

lemma copyTestFiles_written:
  "snd (snd (copyTestFiles env d ts fs0)) = None \<Longrightarrow> distinct (map (destPathOf env d) ts) \<Longrightarrow>
   t \<in> set ts \<Longrightarrow> fst (copyTestFiles env d ts fs0) (destPathOf env d t) = contentOf env t"
proof (induction ts arbitrary: fs0)
  case Nil
  then show ?case by simp
next
  case (Cons a ts)
  then show ?case
    by (auto simp: cpSync_def contentOf_def Let_def split_beta copyTestFiles_frame split: sum.splits)
qed

lemma copyTestFiles_readable:
  "snd (snd (copyTestFiles env d ts fs0)) = None \<Longrightarrow> t \<in> set ts \<Longrightarrow> contentOf env t \<noteq> None"
  by (induction ts arbitrary: fs0)
     (auto simp: cpSync_def contentOf_def Let_def split_beta split: sum.splits)

lemmas staging_defs =
  stageFiles_def getEvalTestFiles_def filterBoolean_def inputDirOf_def path_join_def
  destPathOf_def cpSync_def Let_def

lemma stageFiles_fault:
  "snd (snd (copyTestFiles env (inputDirOf env evalName) testFiles (workingTree env evalName)))
     = Some e \<Longrightarrow>
   stageFiles env evalName testFiles =
     (fst (copyTestFiles env (inputDirOf env evalName) testFiles (workingTree env evalName)),
      fst (snd (copyTestFiles env (inputDirOf env evalName) testFiles (workingTree env evalName))),
      Some e)"
  by (simp add: stageFiles_def Let_def split_beta)

lemma stageFiles_stubs:
  "snd (snd (copyTestFiles env (inputDirOf env evalName) testFiles (workingTree env evalName)))
     = None \<Longrightarrow>
   stageFiles env evalName testFiles =
     (fst (copyStubFiles env (inputDirOf env evalName) (filterBoolean (findStubFiles env evalName))
            (fst (copyTestFiles env (inputDirOf env evalName) testFiles (workingTree env evalName)))),
      fst (snd (copyTestFiles env (inputDirOf env evalName) testFiles (workingTree env evalName))) @
      fst (snd (copyStubFiles env (inputDirOf env evalName) (filterBoolean (findStubFiles env evalName))
            (fst (copyTestFiles env (inputDirOf env evalName) testFiles (workingTree env evalName))))),
      snd (snd (copyStubFiles env (inputDirOf env evalName) (filterBoolean (findStubFiles env evalName))
            (fst (copyTestFiles env (inputDirOf env evalName) testFiles (workingTree env evalName))))))"
  by (simp add: stageFiles_def Let_def split_beta)

text \<open>
  C6, as the code has it.  A stub file is copied only to a path at which nothing exists:
  neither a file of the working tree nor a test file staged a moment before.  The test
  files are copied without a look at the destination.  So staging leaves every file of the
  working tree as it was, except at the destinations of the test files; and when no copy
  throws and the test files have distinct destinations, each destination of a test file
  holds the content of that test file afterwards, whatever was there before.
\<close>

theorem staging_overwrites_only_for_tests:
  "(\<forall>src dest. CopyStub src dest \<in> set (fst (snd (stageFiles env evalName testFiles))) \<longrightarrow>
      workingTree env evalName dest = None \<and>
      (\<forall>t. CopyTest t dest \<notin> set (fst (snd (stageFiles env evalName testFiles))))) \<and>
   (\<forall>p c. workingTree env evalName p = Some c \<longrightarrow>
      p \<notin> destPathOf env (inputDirOf env evalName) ` set testFiles \<longrightarrow>
      fst (stageFiles env evalName testFiles) p = Some c) \<and>
   (snd (snd (stageFiles env evalName testFiles)) = None \<longrightarrow>
    distinct (map (destPathOf env (inputDirOf env evalName)) testFiles) \<longrightarrow>
      (\<forall>t \<in> set testFiles.
         fst (stageFiles env evalName testFiles) (destPathOf env (inputDirOf env evalName) t)
           = contentOf env t))"
proof -
  define d where "d = inputDirOf env evalName"
  define T where "T = copyTestFiles env d testFiles (workingTree env evalName)"
  define S where "S = copyStubFiles env d (filterBoolean (findStubFiles env evalName)) (fst T)"
  show ?thesis
  proof (cases "snd (snd T)")
    case (Some e)
    then have st: "stageFiles env evalName testFiles = (fst T, fst (snd T), Some e)"
      unfolding T_def d_def by (rule stageFiles_fault)
    show ?thesis
      unfolding st d_def [symmetric]
      by (simp add: T_def copyTestFiles_events copyTestFiles_frame)
  next
    case None
    then have st: "stageFiles env evalName testFiles
        = (fst S, fst (snd T) @ fst (snd S), snd (snd S))"
      unfolding S_def T_def d_def by (rule stageFiles_stubs)
    have noStubT: "CopyStub src dest \<notin> set (fst (snd T))" for src dest
      unfolding T_def by (rule copyTestFiles_events)
    have noTestS: "CopyTest src dest \<notin> set (fst (snd S))" for src dest
      unfolding S_def by (rule copyStubFiles_events)
    have stub: "workingTree env evalName dest = None \<and> CopyTest t dest \<notin> set (fst (snd T))"
      if "CopyStub src dest \<in> set (fst (snd S))" for src dest t
    proof -
      from that have absent: "fst T dest = None"
        unfolding S_def using copyStubFiles_guard by blast
      then show ?thesis
        unfolding T_def using copyTestFiles_grows copyTestFiles_copied by blast
    qed
    have keep: "fst S p = Some c"
      if "workingTree env evalName p = Some c" "p \<notin> destPathOf env d ` set testFiles" for p c
      unfolding S_def using that by (simp add: copyStubFiles_keeps T_def copyTestFiles_frame)
    have written: "fst S (destPathOf env d t) = contentOf env t"
      if "distinct (map (destPathOf env d) testFiles)" "t \<in> set testFiles" for t
    proof -
      have "fst T (destPathOf env d t) = contentOf env t"
        unfolding T_def using None that by (simp add: copyTestFiles_written T_def)
      moreover have "contentOf env t \<noteq> None"
        using None that(2) unfolding T_def by (rule copyTestFiles_readable)
      ultimately show ?thesis
        unfolding S_def by (auto simp: copyStubFiles_keeps)
    qed
    show ?thesis
      unfolding st d_def [symmetric]
      using stub keep written noStubT noTestS by auto
  qed
qed


theorem staging_overwrites_only_for_tests_witness:
  "CopyStub ''/c/evals/001-a/input/a.ts'' ''/p/a.ts''
     \<in> set (fst (snd (stageFiles demoEnv ''001-a'' (getEvalTestFiles demoEnv ''001-a'')))) \<and>
   workingTree demoEnv ''001-a'' ''/p/a.ts'' = None \<and>
   workingTree overwriteEnv ''001-a'' ''/p/a.ts'' = Some ''mine'' \<and>
   ''/p/a.ts'' \<notin> destPathOf overwriteEnv (inputDirOf overwriteEnv ''001-a'')
       ` set (getEvalTestFiles overwriteEnv ''001-a'') \<and>
   fst (stageFiles overwriteEnv ''001-a'' (getEvalTestFiles overwriteEnv ''001-a'')) ''/p/a.ts''
     = Some ''mine'' \<and>
   snd (snd (stageFiles overwriteEnv ''001-a'' (getEvalTestFiles overwriteEnv ''001-a''))) = None \<and>
   distinct (map (destPathOf overwriteEnv (inputDirOf overwriteEnv ''001-a''))
      (getEvalTestFiles overwriteEnv ''001-a'')) \<and>
   ''/c/evals/001-a/input/a.test.ts'' \<in> set (getEvalTestFiles overwriteEnv ''001-a'') \<and>
   fst (stageFiles overwriteEnv ''001-a'' (getEvalTestFiles overwriteEnv ''001-a''))
      (destPathOf overwriteEnv (inputDirOf overwriteEnv ''001-a'') ''/c/evals/001-a/input/a.test.ts'')
     = contentOf overwriteEnv ''/c/evals/001-a/input/a.test.ts''"
proof -
  have h1: "CopyStub ''/c/evals/001-a/input/a.ts'' ''/p/a.ts''
     \<in> set (fst (snd (stageFiles demoEnv ''001-a'' (getEvalTestFiles demoEnv ''001-a''))))"
    by (simp add: demoEnv_def staging_defs)
  have h2: "workingTree overwriteEnv ''001-a'' ''/p/a.ts'' = Some ''mine''"
    by (simp add: overwriteEnv_def)
  have h3: "''/p/a.ts'' \<notin> destPathOf overwriteEnv (inputDirOf overwriteEnv ''001-a'')
       ` set (getEvalTestFiles overwriteEnv ''001-a'')"
    by (simp add: overwriteEnv_def demoEnv_def staging_defs)
  have h4: "snd (snd (stageFiles overwriteEnv ''001-a'' (getEvalTestFiles overwriteEnv ''001-a'')))
      = None"
    by (simp add: overwriteEnv_def demoEnv_def staging_defs)
  have h5: "distinct (map (destPathOf overwriteEnv (inputDirOf overwriteEnv ''001-a''))
      (getEvalTestFiles overwriteEnv ''001-a''))"
    by (simp add: overwriteEnv_def demoEnv_def staging_defs)
  have h6: "''/c/evals/001-a/input/a.test.ts'' \<in> set (getEvalTestFiles overwriteEnv ''001-a'')"
    by (simp add: overwriteEnv_def demoEnv_def staging_defs)
  show ?thesis
    using h1 h2 h3 h4 h5 h6
      staging_overwrites_only_for_tests [of demoEnv "''001-a''" "getEvalTestFiles demoEnv ''001-a''"]
      staging_overwrites_only_for_tests
        [of overwriteEnv "''001-a''" "getEvalTestFiles overwriteEnv ''001-a''"]
    by blast
qed

text \<open>
  The claim C6 as it is written fails for the test files: a file of the working tree at the
  destination of a test file is replaced.
\<close>

theorem staging_overwrites_test_file:
  "workingTree overwriteEnv ''001-a'' ''/p/a.test.ts'' = Some ''old'' \<and>
   fst (snd (stageFiles overwriteEnv ''001-a'' (getEvalTestFiles overwriteEnv ''001-a'')))
     = [CopyTest ''/c/evals/001-a/input/a.test.ts'' ''/p/a.test.ts''] \<and>
   fst (stageFiles overwriteEnv ''001-a'' (getEvalTestFiles overwriteEnv ''001-a'')) ''/p/a.test.ts''
     = Some ''new''"
  by (simp add: overwriteEnv_def demoEnv_def staging_defs)

subsection \<open>The attempt loop\<close>

lemmas stage_defs =
  attemptBody_def buildStage_def lintStage_def testsStage_def finishStage_def appendGate_def
  Let_def

lemma feedback_nonempty:
  "buildFeedback r \<noteq> []" "lintFeedback r \<noteq> []" "testsFeedback r b \<noteq> []"
  by (simp_all add: buildFeedback_def lintFeedback_def testsFeedback_def Let_def)

lemma attemptBody_log:
  "attemptBody env n base tfs a r fb = (r1, fb1, l, sg) \<Longrightarrow>
   attemptNo l = a \<and> payload l = composePrompt base fb \<and> attempts r1 = a \<and>
   name r1 = name r \<and> mode r1 = mode r \<and> error r1 = error r \<and>
   prefix (map fst (gates l)) [Build, Lint, Tests]"
  by (auto simp: stage_defs split: sum.splits if_splits)

lemma attemptBody_Continue:
  "attemptBody env n base tfs a r fb = (r1, fb1, l, Continue) \<Longrightarrow>
   a < MAX_FULL_ATTEMPTS \<and>
   (\<exists>g res. firstFailure l = Some (g, res) \<and> fb1 = failureText g res (browserErrors l)) \<and>
   fb1 \<noteq> [] \<and> firstFailure l = Some (last (gates l)) \<and> (tests r1 \<longrightarrow> tests r)"
  by (auto simp: stage_defs failureText_def firstFailure_def failed_def buildFeedback_def
      lintFeedback_def testsFeedback_def split: sum.splits if_splits option.splits)

lemma attemptBody_Next:
  "attemptBody env n base tfs a r fb = (r1, fb1, l, Next) \<Longrightarrow> \<not> a < MAX_FULL_ATTEMPTS"
  by (auto simp: stage_defs split: sum.splits if_splits)

lemma attemptBody_Throw:
  "attemptBody env n base tfs a r fb = (r1, fb1, l, Throw e) \<Longrightarrow> tests r1 = tests r"
  by (auto simp: stage_defs split: sum.splits if_splits)

lemma attemptBody_passed:
  "attemptBody env n base tfs a r fb = (r1, fb1, l, sg) \<Longrightarrow>
   allGatesPassed tfs l \<Longrightarrow> sg = Break"
  by (auto simp: stage_defs allGatesPassed_def allGates_def failed_def split: sum.splits if_splits)

lemma attemptBody_short_circuit:
  "attemptBody env n base tfs a r fb = (r1, fb1, l, sg) \<Longrightarrow> a < MAX_FULL_ATTEMPTS \<Longrightarrow>
   firstFailure l = Some g \<Longrightarrow> last (gates l) = g"
  by (auto simp: stage_defs firstFailure_def failed_def split: sum.splits if_splits)

lemma attemptBody_complete:
  "attemptBody env n base tfs a r fb = (r1, fb1, l, sg) \<Longrightarrow> \<not> a < MAX_FULL_ATTEMPTS \<Longrightarrow>
   (\<forall>e. sg \<noteq> Throw e) \<Longrightarrow> map fst (gates l) = allGates tfs"
  by (auto simp: stage_defs allGates_def split: sum.splits if_splits)

lemma attemptLoop_cases [case_names finished thrown broke ended retried]:
  obtains
    "\<not> a \<le> MAX_FULL_ATTEMPTS" "attemptLoop env n base tfs a r fb = (r, [], None)"
  | r1 fb1 l e where "a \<le> MAX_FULL_ATTEMPTS"
      "attemptBody env n base tfs a r fb = (r1, fb1, l, Throw e)"
      "attemptLoop env n base tfs a r fb = (r1, [l], Some e)"
  | r1 fb1 l where "a \<le> MAX_FULL_ATTEMPTS"
      "attemptBody env n base tfs a r fb = (r1, fb1, l, Break)"
      "attemptLoop env n base tfs a r fb = (r1, [l], None)"
  | r1 fb1 l where "a = MAX_FULL_ATTEMPTS"
      "attemptBody env n base tfs a r fb = (r1, fb1, l, Next)"
      "attemptLoop env n base tfs a r fb = (r1, [l], None)"
  | r1 fb1 l r2 ls f where "a < MAX_FULL_ATTEMPTS"
      "attemptBody env n base tfs a r fb = (r1, fb1, l, Continue)"
      "attemptLoop env n base tfs (a + 1) r1 fb1 = (r2, ls, f)"
      "attemptLoop env n base tfs a r fb = (r2, l # ls, f)"
proof (cases "a \<le> MAX_FULL_ATTEMPTS")
  case False
  then show ?thesis
    using that(1) by (simp add: attemptLoop.simps [of env n base tfs a])
next
  case True
  obtain r1 fb1 l sg where body: "attemptBody env n base tfs a r fb = (r1, fb1, l, sg)"
    using prod_cases4 by blast
  obtain r2 ls f where rest: "attemptLoop env n base tfs (a + 1) r1 fb1 = (r2, ls, f)"
    using prod_cases3 by blast
  show ?thesis
  proof (cases sg)
    case Continue
    with body have "a < MAX_FULL_ATTEMPTS"
      using attemptBody_Continue by blast
    with Continue body rest that(5) show ?thesis
      by (simp add: attemptLoop.simps [of env n base tfs a])
  next
    case Break
    with True body that(3) show ?thesis
      by (simp add: attemptLoop.simps [of env n base tfs a])
  next
    case Next
    with body have "\<not> a < MAX_FULL_ATTEMPTS"
      using attemptBody_Next by blast
    with True have a: "a = MAX_FULL_ATTEMPTS" by simp
    then have nxt: "attemptLoop env n base tfs (a + 1) r1 fb1 = (r1, [], None)"
      by (subst attemptLoop.simps) simp
    have "attemptLoop env n base tfs a r fb = (r1, [l], None)"
      by (subst attemptLoop.simps) (use True body Next nxt in simp)
    with a Next body that(4) show ?thesis by blast
  next
    case (Throw e)
    with True body that(2) show ?thesis
      by (simp add: attemptLoop.simps [of env n base tfs a])
  qed
qed

text \<open>The attempts are numbered from the first one on, and there are at most as many as the loop allows.\<close>

lemma attemptLoop_numbers:
  "attemptLoop env n base tfs a r fb = (r', logs, fault) \<Longrightarrow>
   (\<forall>i < length logs. attemptNo (logs ! i) = a + i) \<and>
   (a \<le> MAX_FULL_ATTEMPTS \<longrightarrow> logs \<noteq> [] \<and> a + length logs \<le> MAX_FULL_ATTEMPTS + 1) \<and>
   attempts r' = (if logs = [] then attempts r else a + length logs - 1) \<and>
   name r' = name r \<and> mode r' = mode r \<and> error r' = error r"
proof (induction "MAX_FULL_ATTEMPTS + 1 - a" arbitrary: a r fb r' logs fault)
  case 0
  then have "\<not> a \<le> MAX_FULL_ATTEMPTS" by simp
  with "0.prems" show ?case
    by (cases rule: attemptLoop_cases [of a env n base tfs r fb]) auto
next
  case (Suc k)
  show ?case
  proof (cases rule: attemptLoop_cases [of a env n base tfs r fb])
    case finished
    with Suc.prems show ?thesis by auto
  next
    case (thrown r1 fb1 l e)
    with Suc.prems attemptBody_log [OF thrown(2)] show ?thesis by auto
  next
    case (broke r1 fb1 l)
    with Suc.prems attemptBody_log [OF broke(2)] show ?thesis by auto
  next
    case (ended r1 fb1 l)
    with Suc.prems attemptBody_log [OF ended(2)] show ?thesis by auto
  next
    case (retried r1 fb1 l r2 ls f)
    have k: "k = MAX_FULL_ATTEMPTS + 1 - (a + 1)" using Suc.hyps(2) by simp
    note ih = Suc.hyps(1) [OF k retried(3)]
    note b = attemptBody_log [OF retried(2)]
    from retried(4) Suc.prems have eq: "r' = r2" "logs = l # ls" "fault = f" by auto
    from ih b retried(1) show ?thesis
      unfolding eq by (auto simp: nth_Cons split: nat.splits)
  qed
qed

text \<open>The prompt of an attempt carries the failure text of the attempt before it.\<close>

lemma attemptLoop_feedback:
  "attemptLoop env n base tfs a r fb = (r', logs, fault) \<Longrightarrow>
   (logs \<noteq> [] \<longrightarrow> payload (hd logs) = composePrompt base fb) \<and>
   (\<forall>i. Suc i < length logs \<longrightarrow>
      (\<exists>g res. firstFailure (logs ! i) = Some (g, res) \<and>
         payload (logs ! Suc i) =
           withInstructions base @
           feedbackSuffix (failureText g res (browserErrors (logs ! i)))))"
proof (induction "MAX_FULL_ATTEMPTS + 1 - a" arbitrary: a r fb r' logs fault)
  case 0
  then have "\<not> a \<le> MAX_FULL_ATTEMPTS" by simp
  with "0.prems" show ?case
    by (cases rule: attemptLoop_cases [of a env n base tfs r fb]) auto
next
  case (Suc k)
  show ?case
  proof (cases rule: attemptLoop_cases [of a env n base tfs r fb])
    case finished
    with Suc.prems show ?thesis by auto
  next
    case (thrown r1 fb1 l e)
    with Suc.prems attemptBody_log [OF thrown(2)] show ?thesis by auto
  next
    case (broke r1 fb1 l)
    with Suc.prems attemptBody_log [OF broke(2)] show ?thesis by auto
  next
    case (ended r1 fb1 l)
    with Suc.prems attemptBody_log [OF ended(2)] show ?thesis by auto
  next
    case (retried r1 fb1 l r2 ls f)
    have k: "k = MAX_FULL_ATTEMPTS + 1 - (a + 1)" using Suc.hyps(2) by simp
    note ih = Suc.hyps(1) [OF k retried(3)]
    note b = attemptBody_log [OF retried(2)]
    note c = attemptBody_Continue [OF retried(2)]
    from retried(4) Suc.prems have eq: "r' = r2" "logs = l # ls" "fault = f" by auto
    have first: "payload (hd ls) = withInstructions base @ feedbackSuffix fb1" if "ls \<noteq> []"
      using ih that c by (simp add: composePrompt_def)
    have "\<exists>g res. firstFailure ((l # ls) ! i) = Some (g, res) \<and>
             payload ((l # ls) ! Suc i) =
               withInstructions base @
               feedbackSuffix (failureText g res (browserErrors ((l # ls) ! i)))"
      if "Suc i < length (l # ls)" for i
    proof (cases i)
      case 0
      with that have "ls \<noteq> []" by auto
      with first c 0 show ?thesis by (auto simp: hd_conv_nth)
    next
      case (Suc j)
      with that ih show ?thesis by simp
    qed
    with b show ?thesis unfolding eq by simp
  qed
qed

text \<open>An attempt in which every gate passed is the last one.\<close>

lemma attemptLoop_passed:
  "attemptLoop env n base tfs a r fb = (r', logs, fault) \<Longrightarrow>
   i < length logs \<Longrightarrow> allGatesPassed tfs (logs ! i) \<Longrightarrow> Suc i = length logs"
proof (induction "MAX_FULL_ATTEMPTS + 1 - a" arbitrary: a r fb r' logs fault i)
  case 0
  then have "\<not> a \<le> MAX_FULL_ATTEMPTS" by simp
  with "0.prems" show ?case
    by (cases rule: attemptLoop_cases [of a env n base tfs r fb]) auto
next
  case (Suc k)
  show ?case
  proof (cases rule: attemptLoop_cases [of a env n base tfs r fb])
    case finished
    with Suc.prems show ?thesis by auto
  next
    case (thrown r1 fb1 l e)
    with Suc.prems show ?thesis by auto
  next
    case (broke r1 fb1 l)
    with Suc.prems show ?thesis by auto
  next
    case (ended r1 fb1 l)
    with Suc.prems show ?thesis by auto
  next
    case (retried r1 fb1 l r2 ls f)
    have k: "k = MAX_FULL_ATTEMPTS + 1 - (a + 1)" using Suc.hyps(2) by simp
    from retried(4) Suc.prems have eq: "r' = r2" "logs = l # ls" "fault = f" by auto
    show ?thesis
    proof (cases i)
      case 0
      with Suc.prems(3) eq have "allGatesPassed tfs l" by simp
      with attemptBody_passed [OF retried(2)] show ?thesis by simp
    next
      case (Suc j)
      with Suc.prems(2,3) eq have "j < length ls" "allGatesPassed tfs (ls ! j)" by auto
      with Suc.hyps(1) [OF k retried(3)] have "Suc j = length ls" by blast
      with Suc eq show ?thesis by simp
    qed
  qed
qed

text \<open>The order of the gates, and which attempts skip gates.\<close>

lemma attemptLoop_gates:
  "attemptLoop env n base tfs a r fb = (r', logs, fault) \<Longrightarrow> l \<in> set logs \<Longrightarrow>
   prefix (map fst (gates l)) [Build, Lint, Tests] \<and>
   (attemptNo l < MAX_FULL_ATTEMPTS \<longrightarrow> (\<forall>g. firstFailure l = Some g \<longrightarrow> last (gates l) = g)) \<and>
   (\<not> attemptNo l < MAX_FULL_ATTEMPTS \<longrightarrow> fault = None \<longrightarrow> map fst (gates l) = allGates tfs)"
proof (induction "MAX_FULL_ATTEMPTS + 1 - a" arbitrary: a r fb r' logs fault)
  case 0
  then have "\<not> a \<le> MAX_FULL_ATTEMPTS" by simp
  with "0.prems" show ?case
    by (cases rule: attemptLoop_cases [of a env n base tfs r fb]) auto
next
  case (Suc k)
  have one: ?case
    if body: "attemptBody env n base tfs a r fb = (r1, fb1, l, sg)"
      and sg: "fault = None \<longrightarrow> (\<forall>e. sg \<noteq> Throw e)" for r1 fb1 sg
    using attemptBody_log [OF body] attemptBody_short_circuit [OF body]
      attemptBody_complete [OF body] sg
    by auto
  show ?case
  proof (cases rule: attemptLoop_cases [of a env n base tfs r fb])
    case finished
    with Suc.prems show ?thesis by auto
  next
    case (thrown r1 fb1 l' e)
    with Suc.prems have "l' = l" "fault = Some e" by auto
    with thrown(2) show ?thesis by (intro one [of r1 fb1 "Throw e"]) auto
  next
    case (broke r1 fb1 l')
    with Suc.prems have "l' = l" by auto
    with broke(2) show ?thesis by (intro one [of r1 fb1 Break]) auto
  next
    case (ended r1 fb1 l')
    with Suc.prems have "l' = l" by auto
    with ended(2) show ?thesis by (intro one [of r1 fb1 Next]) auto
  next
    case (retried r1 fb1 l' r2 ls f)
    have k: "k = MAX_FULL_ATTEMPTS + 1 - (a + 1)" using Suc.hyps(2) by simp
    from retried(4) Suc.prems have eq: "r' = r2" "logs = l' # ls" "fault = f" by auto
    with Suc.prems(2) consider "l = l'" | "l \<in> set ls" by auto
    then show ?thesis
    proof cases
      case 1
      with retried(2) show ?thesis by (intro one [of r1 fb1 Continue]) auto
    next
      case 2
      with Suc.hyps(1) [OF k retried(3)] eq show ?thesis by blast
    qed
  qed
qed

text \<open>
  The gates in the log of an attempt hold what the outside world answered in that attempt,
  and the tests are among them only if there are test files.
\<close>

lemma attemptBody_observed:
  "attemptBody env n base tfs a r fb = (r1, fb1, l, sg) \<Longrightarrow>
   (\<forall>g res. (g, res) \<in> set (gates l) \<longrightarrow> gateRun g (attemptEnv env n a) = Inr res) \<and>
   (gates l \<noteq> [] \<longrightarrow> browserErrors l = d3kErrors (attemptEnv env n a)) \<and>
   (Tests \<in> set (map fst (gates l)) \<longrightarrow> tfs \<noteq> [])"
  by (auto simp: stage_defs gateRun_def split: sum.splits if_splits)

lemma attemptLoop_observed:
  "attemptLoop env n base tfs a r fb = (r', logs, fault) \<Longrightarrow> l \<in> set logs \<Longrightarrow>
   (\<forall>g res. (g, res) \<in> set (gates l) \<longrightarrow> gateRun g (attemptEnv env n (attemptNo l)) = Inr res) \<and>
   (gates l \<noteq> [] \<longrightarrow> browserErrors l = d3kErrors (attemptEnv env n (attemptNo l))) \<and>
   (Tests \<in> set (map fst (gates l)) \<longrightarrow> tfs \<noteq> [])"
proof (induction "MAX_FULL_ATTEMPTS + 1 - a" arbitrary: a r fb r' logs fault)
  case 0
  then have "\<not> a \<le> MAX_FULL_ATTEMPTS" by simp
  with "0.prems" show ?case
    by (cases rule: attemptLoop_cases [of a env n base tfs r fb]) auto
next
  case (Suc k)
  have one: ?case
    if body: "attemptBody env n base tfs a r fb = (r1, fb1, l, sg)" for r1 fb1 sg
    using attemptBody_log [OF body] attemptBody_observed [OF body] by simp
  show ?case
  proof (cases rule: attemptLoop_cases [of a env n base tfs r fb])
    case finished
    with Suc.prems show ?thesis by auto
  next
    case (thrown r1 fb1 l' e)
    with Suc.prems have "l' = l" by auto
    with thrown(2) show ?thesis by (intro one [of r1 fb1 "Throw e"]) auto
  next
    case (broke r1 fb1 l')
    with Suc.prems have "l' = l" by auto
    with broke(2) show ?thesis by (intro one [of r1 fb1 Break]) auto
  next
    case (ended r1 fb1 l')
    with Suc.prems have "l' = l" by auto
    with ended(2) show ?thesis by (intro one [of r1 fb1 Next]) auto
  next
    case (retried r1 fb1 l' r2 ls f)
    have k: "k = MAX_FULL_ATTEMPTS + 1 - (a + 1)" using Suc.hyps(2) by simp
    from retried(4) Suc.prems have eq: "r' = r2" "logs = l' # ls" "fault = f" by auto
    with Suc.prems(2) consider "l = l'" | "l \<in> set ls" by auto
    then show ?thesis
    proof cases
      case 1
      with retried(2) show ?thesis by (intro one [of r1 fb1 Continue]) auto
    next
      case 2
      with Suc.hyps(1) [OF k retried(3)] show ?thesis by blast
    qed
  qed
qed

text \<open>When the loop ends with an exception, the tests are not recorded as passed.\<close>

lemma attemptLoop_fault:
  "attemptLoop env n base tfs a r fb = (r', logs, Some e) \<Longrightarrow> \<not> tests r \<Longrightarrow> \<not> tests r'"
proof (induction "MAX_FULL_ATTEMPTS + 1 - a" arbitrary: a r fb r' logs)
  case 0
  then have "\<not> a \<le> MAX_FULL_ATTEMPTS" by simp
  with "0.prems" show ?case
    by (cases rule: attemptLoop_cases [of a env n base tfs r fb]) auto
next
  case (Suc k)
  show ?case
  proof (cases rule: attemptLoop_cases [of a env n base tfs r fb])
    case finished
    with Suc.prems show ?thesis by auto
  next
    case (thrown r1 fb1 l e)
    with Suc.prems attemptBody_Throw [OF thrown(2)] show ?thesis by auto
  next
    case (broke r1 fb1 l)
    with Suc.prems show ?thesis by auto
  next
    case (ended r1 fb1 l)
    with Suc.prems show ?thesis by auto
  next
    case (retried r1 fb1 l r2 ls f)
    have k: "k = MAX_FULL_ATTEMPTS + 1 - (a + 1)" using Suc.hyps(2) by simp
    from retried(4) Suc.prems have eq: "r' = r2" "f = Some e" by auto
    from attemptBody_Continue [OF retried(2)] Suc.prems(2) have "\<not> tests r1" by blast
    with Suc.hyps(1) [OF k] retried(3) eq show ?thesis by blast
  qed
qed

subsection \<open>The runners\<close>

lemma attemptLogs_append: "attemptLogs (xs @ ys) = attemptLogs xs @ attemptLogs ys"
  by (induction xs rule: attemptLogs.induct) auto

lemma attemptLogs_map: "attemptLogs (map Attempt ls) = ls"
  by (induction ls) auto

lemma copyTestFiles_no_attempts: "attemptLogs (fst (snd (copyTestFiles env d ts fs0))) = []"
  by (induction ts arbitrary: fs0)
     (auto simp: cpSync_def Let_def split_beta split: sum.splits)

lemma copyStubFiles_no_attempts: "attemptLogs (fst (snd (copyStubFiles env d ts fs0))) = []"
  by (induction ts arbitrary: fs0)
     (auto simp: cpSync_def Let_def split_beta split: sum.splits)

lemma stageFiles_no_attempts: "attemptLogs (fst (snd (stageFiles env n tfs))) = []"
  by (auto simp: stageFiles_def Let_def split_beta attemptLogs_append copyTestFiles_no_attempts
      copyStubFiles_no_attempts split: option.splits)

lemma copyTestFiles_no_spawn: "D3kSpawn pid \<notin> set (fst (snd (copyTestFiles env d ts fs0)))"
  by (induction ts arbitrary: fs0)
     (auto simp: cpSync_def Let_def split_beta split: sum.splits)

lemma copyStubFiles_no_spawn: "D3kSpawn pid \<notin> set (fst (snd (copyStubFiles env d ts fs0)))"
  by (induction ts arbitrary: fs0)
     (auto simp: cpSync_def Let_def split_beta split: sum.splits)

lemma stageFiles_no_spawn: "D3kSpawn pid \<notin> set (fst (snd (stageFiles env n tfs)))"
  by (auto simp: stageFiles_def Let_def split_beta copyTestFiles_no_spawn
      copyStubFiles_no_spawn split: option.splits)

lemma runEvalFullTry_cases [case_names staging spawn timeout looped]:
  obtains
    fs copies e where "stageFiles env n tfs = (fs, copies, Some e)"
      "runEvalFullTry env w n p tfs r = (r, emit copies w, Some e)"
  | fs copies e where "stageFiles env n tfs = (fs, copies, None)" "spawnD3k env n = Inl e"
      "runEvalFullTry env w n p tfs r = (r, emit (copies @ [ClearD3kLogs]) w, Some e)"
  | fs copies pid where "stageFiles env n tfs = (fs, copies, None)" "spawnD3k env n = Inr pid"
      "\<not> waitReady env n 0"
      "runEvalFullTry env w n p tfs r =
         (r, (emit (copies @ [ClearD3kLogs, D3kSpawn pid]) w)\<lparr>d3kProcess := Some pid\<rparr>,
          Some ''Error: d3k server failed to start within 30s'')"
  | fs copies pid r1 logs fault where "stageFiles env n tfs = (fs, copies, None)"
      "spawnD3k env n = Inr pid" "waitReady env n 0"
      "attemptLoop env n p tfs 1 r [] = (r1, logs, fault)"
      "runEvalFullTry env w n p tfs r =
         (r1, (emit (copies @ [ClearD3kLogs, D3kSpawn pid] @ map Attempt logs) w)
                \<lparr>d3kProcess := Some pid\<rparr>, fault)"
proof -
  obtain fs copies sf where st: "stageFiles env n tfs = (fs, copies, sf)"
    using prod_cases3 by blast
  obtain r1 logs fault where lp: "attemptLoop env n p tfs 1 r [] = (r1, logs, fault)"
    using prod_cases3 by blast
  show ?thesis
  proof (cases sf)
    case (Some e)
    with st that(1) show ?thesis by (simp add: runEvalFullTry_def)
  next
    case None
    show ?thesis
    proof (cases "spawnD3k env n")
      case (Inl e)
      with None st that(2) show ?thesis
        by (simp add: runEvalFullTry_def startD3k_def emit_def)
    next
      case (Inr pid)
      show ?thesis
      proof (cases "waitReady env n 0")
        case True
        with Inr None st lp that(4) [of fs copies pid r1 logs fault] show ?thesis
          by (simp add: runEvalFullTry_def startD3k_def emit_def)
      next
        case False
        with Inr None st that(3) [of fs copies pid] show ?thesis
          by (simp add: runEvalFullTry_def startD3k_def emit_def)
      qed
    qed
  qed
qed

lemma attemptBody_Break:
  "attemptBody env n base tfs a r fb = (r1, fb1, l, Break) \<Longrightarrow> success r1"
  by (auto simp: stage_defs success_def split: sum.splits if_splits)

lemma attemptLoop_passed_result:
  "attemptLoop env n base tfs a r fb = (r', logs, fault) \<Longrightarrow>
   i < length logs \<Longrightarrow> allGatesPassed tfs (logs ! i) \<Longrightarrow> fault = None \<and> success r'"
proof (induction "MAX_FULL_ATTEMPTS + 1 - a" arbitrary: a r fb r' logs fault i)
  case 0
  then have "\<not> a \<le> MAX_FULL_ATTEMPTS" by simp
  with "0.prems" show ?case
    by (cases rule: attemptLoop_cases [of a env n base tfs r fb]) auto
next
  case (Suc k)
  have one: "sg = Break"
    if "attemptBody env n base tfs a r fb = (r1, fb1, logs ! i, sg)" for r1 fb1 sg
    using attemptBody_passed [OF that Suc.prems(3)] .
  show ?case
  proof (cases rule: attemptLoop_cases [of a env n base tfs r fb])
    case finished
    with Suc.prems show ?thesis by auto
  next
    case (thrown r1 fb1 l e)
    with Suc.prems one [of r1 fb1 "Throw e"] show ?thesis by auto
  next
    case (broke r1 fb1 l)
    with Suc.prems attemptBody_Break [OF broke(2)] show ?thesis by auto
  next
    case (ended r1 fb1 l)
    with Suc.prems one [of r1 fb1 Next] show ?thesis by auto
  next
    case (retried r1 fb1 l r2 ls f)
    have k: "k = MAX_FULL_ATTEMPTS + 1 - (a + 1)" using Suc.hyps(2) by simp
    from retried(4) Suc.prems have eq: "r' = r2" "logs = l # ls" "fault = f" by auto
    show ?thesis
    proof (cases i)
      case 0
      with eq retried(2) one [of r1 fb1 Continue] show ?thesis by simp
    next
      case (Suc j)
      with Suc.prems(2,3) eq have "j < length ls" "allGatesPassed tfs (ls ! j)" by auto
      with Suc.hyps(1) [OF k retried(3)] eq show ?thesis by blast
    qed
  qed
qed

lemma newEvents_emit [simp]: "newEvents w ((emit evs w)\<lparr>d3kProcess := h\<rparr>) = evs"
  "newEvents w (emit evs w) = evs"
  by (simp_all add: newEvents_def emit_def)

text \<open>What a full run leaves: the result, the world, and the logs of the attempts.\<close>

lemma runEvalFull_cases [case_names noprompt staging spawn timeout looped]:
  obtains
    e where "getEvalPrompt env n = Inl e" "runEvalFull env w n = (Inl e, w)"
  | p fs copies e where "getEvalPrompt env n = Inr p"
      "stageFiles env n (getEvalTestFiles env n) = (fs, copies, Some e)"
      "runEvalFull env w n =
         (Inr (freshResult n 0 Full\<lparr>error := Some e, duration := elapsed env n\<rparr>),
          restoreTree (stopD3k (emit (GitStash # copies) w)))"
  | p fs copies e where "getEvalPrompt env n = Inr p"
      "stageFiles env n (getEvalTestFiles env n) = (fs, copies, None)"
      "spawnD3k env n = Inl e"
      "runEvalFull env w n =
         (Inr (freshResult n 0 Full\<lparr>error := Some e, duration := elapsed env n\<rparr>),
          restoreTree (stopD3k (emit (GitStash # copies @ [ClearD3kLogs]) w)))"
  | p fs copies pid where "getEvalPrompt env n = Inr p"
      "stageFiles env n (getEvalTestFiles env n) = (fs, copies, None)"
      "spawnD3k env n = Inr pid" "\<not> waitReady env n 0"
      "runEvalFull env w n =
         (Inr (freshResult n 0 Full\<lparr>error := Some ''Error: d3k server failed to start within 30s'',
                 duration := elapsed env n\<rparr>),
          restoreTree (stopD3k ((emit (GitStash # copies @ [ClearD3kLogs, D3kSpawn pid]) w)
             \<lparr>d3kProcess := Some pid\<rparr>)))"
  | p fs copies pid r1 logs fault where "getEvalPrompt env n = Inr p"
      "stageFiles env n (getEvalTestFiles env n) = (fs, copies, None)"
      "spawnD3k env n = Inr pid" "waitReady env n 0"
      "attemptLoop env n p (getEvalTestFiles env n) 1 (freshResult n 0 Full) [] = (r1, logs, fault)"
      "runEvalFull env w n =
         (Inr ((recordFault fault r1)\<lparr>duration := elapsed env n\<rparr>),
          restoreTree (stopD3k
            ((emit (GitStash # copies @ [ClearD3kLogs, D3kSpawn pid] @ map Attempt logs) w)
               \<lparr>d3kProcess := Some pid\<rparr>)))"
proof (cases "getEvalPrompt env n")
  case (Inl e)
  with that(1) show ?thesis by (simp add: runEvalFull_def)
next
  case (Inr p)
  have em: "emit evs (emit [GitStash] w) = emit (GitStash # evs) w" for evs
    by (simp add: emit_def)
  show ?thesis
  proof (cases rule: runEvalFullTry_cases
      [of env n "getEvalTestFiles env n" "emit [GitStash] w" p "freshResult n 0 Full"])
    case (staging fs copies e)
    with Inr that(2) [of p fs copies e] show ?thesis
      by (simp add: runEvalFull_def recordFault_def em)
  next
    case (spawn fs copies e)
    with Inr that(3) [of p fs copies e] show ?thesis
      by (simp add: runEvalFull_def recordFault_def em)
  next
    case (timeout fs copies pid)
    with Inr that(4) [of p fs copies pid] show ?thesis
      by (simp add: runEvalFull_def recordFault_def em)
  next
    case (looped fs copies pid r1 logs fault)
    with Inr that(5) [of p fs copies pid r1 logs fault] show ?thesis
      by (simp add: runEvalFull_def em)
  qed
qed

lemma stageFiles_copies:
  "stageFiles env n tfs = (fs, copies, f) \<Longrightarrow> attemptLogs copies = []"
  using stageFiles_no_attempts [of env n tfs] by simp

lemma attemptLogs_teardown:
  "attemptLogs (newEvents w (restoreTree (stopD3k ((emit evs w)\<lparr>d3kProcess := h\<rparr>))))
     = attemptLogs evs"
  "attemptLogs (newEvents w (restoreTree (stopD3k (emit evs w)))) = attemptLogs evs"
  by (simp_all add: newEvents_def emit_def restoreTree_def stopD3k_def attemptLogs_append
      split: option.splits)

text \<open>The attempts of a full run are those of the loop, and there are none when the loop is not reached.\<close>

lemma runEvalFull_logs [case_names unreached reached]:
  assumes "runEvalFull env w n = (Inr r, w')"
  obtains e where "attemptLogs (newEvents w w') = []" "error r = Some e" "attempts r = 0"
      "\<not> success r"
  | p r1 logs fault where "getEvalPrompt env n = Inr p"
      "attemptLoop env n p (getEvalTestFiles env n) 1 (freshResult n 0 Full) [] = (r1, logs, fault)"
      "attemptLogs (newEvents w w') = logs"
      "r = (recordFault fault r1)\<lparr>duration := elapsed env n\<rparr>"
proof (cases rule: runEvalFull_cases [of env n w])
  case (noprompt e)
  with assms show ?thesis by simp
next
  case (staging p fs copies e)
  with assms that(1) [of e] stageFiles_copies [OF staging(2)] show ?thesis
    by (auto simp: attemptLogs_teardown freshResult_def success_def)
next
  case (spawn p fs copies e)
  with assms that(1) [of e] stageFiles_copies [OF spawn(2)] show ?thesis
    by (auto simp: attemptLogs_teardown attemptLogs_append freshResult_def success_def)
next
  case (timeout p fs copies pid)
  with assms that(1) stageFiles_copies [OF timeout(2)] show ?thesis
    by (auto simp: attemptLogs_teardown attemptLogs_append freshResult_def success_def)
next
  case (looped p fs copies pid r1 logs fault)
  with assms that(2) [of p r1 logs fault] stageFiles_copies [OF looped(2)] show ?thesis
    by (auto simp: attemptLogs_teardown attemptLogs_append attemptLogs_map)
qed

lemma recordFault_fields [simp]:
  "attempts (recordFault f r) = attempts r" "build (recordFault f r) = build r"
  "lint (recordFault f r) = lint r" "tests (recordFault f r) = tests r"
  "name (recordFault f r) = name r" "mode (recordFault f r) = mode r"
  "success (recordFault f r) = success r"
  "error (recordFault f r) = (case f of None \<Rightarrow> error r | Some e \<Rightarrow> Some e)"
  by (simp_all add: recordFault_def success_def split: option.splits)

lemma success_duration [simp]: "success (r\<lparr>duration := d\<rparr>) = success r"
  by (simp add: success_def)

lemma firstShotAttempt_log:
  "firstShotAttempt env n p tfs r = (r1, l, fault) \<Longrightarrow>
   attempts r1 = attempts r \<and> name r1 = name r \<and> mode r1 = mode r \<and> error r1 = error r \<and>
   attemptNo l = 1 \<and> payload l = withInstructions p \<and>
   prefix (map fst (gates l)) [Build, Lint, Tests] \<and>
   (fault = None \<longrightarrow> map fst (gates l) = allGates tfs) \<and>
   (fault \<noteq> None \<longrightarrow> tests r1 = tests r)"
  by (auto simp: firstShotAttempt_def appendGate_def allGates_def Let_def
      split: sum.splits if_splits)

lemma firstShotAttempt_observed:
  "firstShotAttempt env n p tfs r = (r1, l, fault) \<Longrightarrow>
   (\<forall>g res. (g, res) \<in> set (gates l) \<longrightarrow> gateRun g (attemptEnv env n 1) = Inr res) \<and>
   (Tests \<in> set (map fst (gates l)) \<longrightarrow> tfs \<noteq> [])"
  by (auto simp: firstShotAttempt_def appendGate_def gateRun_def Let_def
      split: sum.splits if_splits)

lemma runEval_cases [case_names noprompt staging attempted]:
  obtains
    e where "getEvalPrompt env n = Inl e" "runEval env w n = (Inl e, w)"
  | p fs copies e where "getEvalPrompt env n = Inr p"
      "stageFiles env n (getEvalTestFiles env n) = (fs, copies, Some e)"
      "runEval env w n =
         (Inr (freshResult n 1 FirstShot\<lparr>error := Some e, duration := elapsed env n\<rparr>),
          restoreTree (emit (GitStash # copies) w))"
  | p fs copies r1 l fault where "getEvalPrompt env n = Inr p"
      "stageFiles env n (getEvalTestFiles env n) = (fs, copies, None)"
      "firstShotAttempt env n p (getEvalTestFiles env n) (freshResult n 1 FirstShot)
         = (r1, l, fault)"
      "runEval env w n =
         (Inr ((recordFault fault r1)\<lparr>duration := elapsed env n\<rparr>),
          restoreTree (emit (GitStash # copies @ [Attempt l]) w))"
proof (cases "getEvalPrompt env n")
  case (Inl e)
  with that(1) show ?thesis by (simp add: runEval_def)
next
  case (Inr p)
  have em: "emit evs (emit [GitStash] w) = emit (GitStash # evs) w" for evs
    by (simp add: emit_def)
  obtain fs copies sf where st: "stageFiles env n (getEvalTestFiles env n) = (fs, copies, sf)"
    using prod_cases3 by blast
  obtain r1 l fault where at:
    "firstShotAttempt env n p (getEvalTestFiles env n) (freshResult n 1 FirstShot) = (r1, l, fault)"
    using prod_cases3 by blast
  show ?thesis
  proof (cases sf)
    case (Some e)
    with Inr st that(2) [of p fs copies e] show ?thesis
      by (simp add: runEval_def runEvalTry_def recordFault_def em)
  next
    case None
    with Inr st at that(3) [of p fs copies r1 l fault] show ?thesis
      by (simp add: runEval_def runEvalTry_def em)
  qed
qed

lemma attemptLogs_restore:
  "attemptLogs (newEvents w (restoreTree (emit evs w))) = attemptLogs evs"
  by (simp add: newEvents_def emit_def restoreTree_def attemptLogs_append)

subsection \<open>Sample runs\<close>

lemmas run_defs =
  runEvalFull_def runEval_def runEvalFullTry_def runEvalTry_def getEvalPrompt_def js_trim_def
  isSpace_def NL_def staging_defs startD3k_def stopD3k_def emit_def restoreTree_def
  recordFault_def elapsed_def freshResult_def firstShotAttempt_def stage_defs
  okResult_def badResult_def passing_def world0_def MAX_FULL_ATTEMPTS_def
  waitReady.simps attemptLoop.simps

lemma world0_trace [simp]: "trace world0 = []" "d3kProcess world0 = None"
  by (simp_all add: world0_def)

lemma prompt_demo: "getEvalPrompt demoEnv n = Inr ''Add a route.''"
  by (simp add: demoEnv_def getEvalPrompt_def js_trim_def isSpace_def NL_def)

lemma demo_full:
  "runEvalFull demoEnv world0 ''001-a'' =
     (Inr \<lparr>name = ''001-a'', build = True, lint = True, tests = True, duration = 5 / 2,
           attempts = 1, mode = Full, error = None\<rparr>,
      \<lparr>d3kProcess = None,
       trace = [GitStash,
                CopyTest ''/c/evals/001-a/input/a.test.ts'' ''/p/a.test.ts'',
                CopyStub ''/c/evals/001-a/input/a.ts'' ''/p/a.ts'',
                ClearD3kLogs, D3kSpawn 7,
                Attempt \<lparr>attemptNo = 1, payload = withInstructions ''Add a route.'',
                         browserErrors = None,
                         gates = [(Build, okResult), (Lint, okResult), (Tests, okResult)]\<rparr>,
                D3kKill 7, GitCheckout, GitClean, GitStashPop]\<rparr>)"
  by (simp add: demoEnv_def run_defs composePrompt_def)

lemma timeout_full:
  "runEvalFull timeoutEnv world0 ''001-a'' =
     (Inr \<lparr>name = ''001-a'', build = False, lint = False, tests = False, duration = 5 / 2,
           attempts = 0, mode = Full,
           error = Some ''Error: d3k server failed to start within 30s''\<rparr>,
      \<lparr>d3kProcess = None,
       trace = [GitStash,
                CopyTest ''/c/evals/001-a/input/a.test.ts'' ''/p/a.test.ts'',
                CopyStub ''/c/evals/001-a/input/a.ts'' ''/p/a.ts'',
                ClearD3kLogs, D3kSpawn 7,
                D3kKill 7, GitCheckout, GitClean, GitStashPop]\<rparr>)"
  by (simp add: timeoutEnv_def demoEnv_def run_defs composePrompt_def)

lemma retry_full:
  "runEvalFull retryEnv world0 ''001-a'' =
     (Inr \<lparr>name = ''001-a'', build = True, lint = True, tests = True, duration = 5 / 2,
           attempts = 2, mode = Full, error = None\<rparr>,
      \<lparr>d3kProcess = None,
       trace = [GitStash,
                CopyTest ''/c/evals/001-a/input/a.test.ts'' ''/p/a.test.ts'',
                CopyStub ''/c/evals/001-a/input/a.ts'' ''/p/a.ts'',
                ClearD3kLogs, D3kSpawn 7,
                Attempt \<lparr>attemptNo = 1, payload = withInstructions ''Add a route.'',
                         browserErrors = None, gates = [(Build, badResult)]\<rparr>,
                Attempt \<lparr>attemptNo = 2,
                         payload = withInstructions ''Add a route.''
                                     @ feedbackSuffix (buildFeedback badResult),
                         browserErrors = None,
                         gates = [(Build, okResult), (Lint, okResult), (Tests, okResult)]\<rparr>,
                D3kKill 7, GitCheckout, GitClean, GitStashPop]\<rparr>)"
  by (simp add: retryEnv_def demoEnv_def run_defs composePrompt_def feedback_nonempty)

lemma buildFails_firstShot:
  "runEval buildFailsEnv world0 ''001-a'' =
     (Inr \<lparr>name = ''001-a'', build = False, lint = True, tests = True, duration = 5 / 2,
           attempts = 1, mode = FirstShot, error = None\<rparr>,
      \<lparr>d3kProcess = None,
       trace = [GitStash,
                CopyTest ''/c/evals/001-a/input/a.test.ts'' ''/p/a.test.ts'',
                CopyStub ''/c/evals/001-a/input/a.ts'' ''/p/a.ts'',
                Attempt \<lparr>attemptNo = 1, payload = withInstructions ''Add a route.'',
                         browserErrors = None,
                         gates = [(Build, badResult), (Lint, okResult), (Tests, okResult)]\<rparr>,
                GitCheckout, GitClean, GitStashPop]\<rparr>)"
  by (simp add: buildFailsEnv_def demoEnv_def run_defs)

lemma buildFails_full:
  "runEvalFull buildFailsEnv world0 ''001-a'' =
     (Inr \<lparr>name = ''001-a'', build = False, lint = True, tests = True, duration = 5 / 2,
           attempts = 3, mode = Full, error = None\<rparr>,
      \<lparr>d3kProcess = None,
       trace = [GitStash,
                CopyTest ''/c/evals/001-a/input/a.test.ts'' ''/p/a.test.ts'',
                CopyStub ''/c/evals/001-a/input/a.ts'' ''/p/a.ts'',
                ClearD3kLogs, D3kSpawn 7,
                Attempt \<lparr>attemptNo = 1, payload = withInstructions ''Add a route.'',
                         browserErrors = None, gates = [(Build, badResult)]\<rparr>,
                Attempt \<lparr>attemptNo = 2,
                         payload = withInstructions ''Add a route.''
                                     @ feedbackSuffix (buildFeedback badResult),
                         browserErrors = None, gates = [(Build, badResult)]\<rparr>,
                Attempt \<lparr>attemptNo = 3,
                         payload = withInstructions ''Add a route.''
                                     @ feedbackSuffix (buildFeedback badResult),
                         browserErrors = None,
                         gates = [(Build, badResult), (Lint, okResult), (Tests, okResult)]\<rparr>,
                D3kKill 7, GitCheckout, GitClean, GitStashPop]\<rparr>)"
  by (simp add: buildFailsEnv_def demoEnv_def run_defs composePrompt_def feedback_nonempty)

lemma demo_firstShot:
  "runEval demoEnv world0 ''001-a'' =
     (Inr \<lparr>name = ''001-a'', build = True, lint = True, tests = True, duration = 5 / 2,
           attempts = 1, mode = FirstShot, error = None\<rparr>,
      \<lparr>d3kProcess = None,
       trace = [GitStash,
                CopyTest ''/c/evals/001-a/input/a.test.ts'' ''/p/a.test.ts'',
                CopyStub ''/c/evals/001-a/input/a.ts'' ''/p/a.ts'',
                Attempt \<lparr>attemptNo = 1, payload = withInstructions ''Add a route.'',
                         browserErrors = None,
                         gates = [(Build, okResult), (Lint, okResult), (Tests, okResult)]\<rparr>,
                GitCheckout, GitClean, GitStashPop]\<rparr>)"
  by (simp add: demoEnv_def run_defs)

lemma testFiles_demo:
  "getEvalTestFiles retryEnv ''001-a'' = [''/c/evals/001-a/input/a.test.ts'']"
  "getEvalTestFiles buildFailsEnv ''001-a'' = [''/c/evals/001-a/input/a.test.ts'']"
  by (simp_all add: retryEnv_def buildFailsEnv_def demoEnv_def getEvalTestFiles_def
      filterBoolean_def)

subsection \<open>The order of the gates\<close>




subsection \<open>The number of attempts\<close>

text \<open>
  C3, as the code has it.  In the first-shot mode \<open>attempts\<close> is 1.  In the full mode it
  is the number of attempts that were started, which is at most \<open>MAX_FULL_ATTEMPTS\<close>.
  It is 0 exactly when the run ended before its first attempt, because staging threw or the
  monitor did not start; the exception is then in the \<open>error\<close> field.
\<close>

theorem attempts_counts_started_attempts:
  "(runEval env w n = (Inr r, w') \<longrightarrow> attempts r = 1) \<and>
   (runEvalFull env w n = (Inr r, w') \<longrightarrow>
      attempts r = length (attemptLogs (newEvents w w')) \<and>
      attempts r \<le> MAX_FULL_ATTEMPTS \<and>
      (attempts r = 0) = (stagingFails env n \<or> monitorFails env n) \<and>
      (attempts r = 0 \<longrightarrow> error r \<noteq> None))"
proof -
  have single: "attempts r = 1" if run: "runEval env w n = (Inr r, w')"
  proof (cases rule: runEval_cases [of env n w])
    case (noprompt e)
    with run show ?thesis by simp
  next
    case (staging p fs copies e)
    with run show ?thesis by (auto simp: freshResult_def)
  next
    case (attempted p fs copies r1 l fault)
    with run firstShotAttempt_log [OF attempted(3)] show ?thesis
      by (auto simp: freshResult_def)
  qed
  have counted: "attempts r = length (attemptLogs (newEvents w w')) \<and>
      attempts r \<le> MAX_FULL_ATTEMPTS \<and> (attempts r = 0 \<longrightarrow> error r \<noteq> None)"
    if run: "runEvalFull env w n = (Inr r, w')"
    using run
  proof (cases rule: runEvalFull_logs)
    case (unreached e)
    then show ?thesis by simp
  next
    case (reached p r1 logs fault)
    from attemptLoop_numbers [OF reached(2)] reached(3,4) show ?thesis
      by (auto simp: MAX_FULL_ATTEMPTS_def)
  qed
  have zero: "(attempts r = 0) = (stagingFails env n \<or> monitorFails env n)"
    if run: "runEvalFull env w n = (Inr r, w')"
  proof (cases rule: runEvalFull_cases [of env n w])
    case (noprompt e)
    with run show ?thesis by simp
  next
    case (staging p fs copies e)
    with run show ?thesis by (auto simp: freshResult_def stagingFails_def)
  next
    case (spawn p fs copies e)
    with run show ?thesis by (auto simp: freshResult_def monitorFails_def)
  next
    case (timeout p fs copies pid)
    with run show ?thesis by (auto simp: freshResult_def monitorFails_def)
  next
    case (looped p fs copies pid r1 logs fault)
    from attemptLoop_numbers [OF looped(5)] have "attempts r1 \<noteq> 0"
      by (auto simp: MAX_FULL_ATTEMPTS_def)
    with run looped show ?thesis
      by (auto simp: stagingFails_def monitorFails_def)
  qed
  from single counted zero show ?thesis by blast
qed

theorem attempts_counts_started_attempts_witness:
  "(\<exists>r w'. runEval demoEnv world0 ''001-a'' = (Inr r, w') \<and> attempts r = 1) \<and>
   (\<exists>r w'. runEvalFull timeoutEnv world0 ''001-a'' = (Inr r, w') \<and> attempts r = 0 \<and>
      attempts r = length (attemptLogs (newEvents world0 w')) \<and>
      attempts r \<le> MAX_FULL_ATTEMPTS \<and> error r \<noteq> None \<and>
      (stagingFails timeoutEnv ''001-a'' \<or> monitorFails timeoutEnv ''001-a''))"
proof -
  obtain r w' where full: "runEvalFull timeoutEnv world0 ''001-a'' = (Inr r, w')"
    and z: "attempts r = 0"
    by (simp add: timeout_full)
  obtain r0 w0 where single: "runEval demoEnv world0 ''001-a'' = (Inr r0, w0)"
    by (simp add: demo_firstShot)
  from attempts_counts_started_attempts [of timeoutEnv world0 "''001-a''" r w'] full z
  have c: "attempts r = length (attemptLogs (newEvents world0 w')) \<and>
      attempts r \<le> MAX_FULL_ATTEMPTS \<and> error r \<noteq> None \<and>
      (stagingFails timeoutEnv ''001-a'' \<or> monitorFails timeoutEnv ''001-a'')"
    by blast
  from attempts_counts_started_attempts [of demoEnv world0 "''001-a''" r0 w0] single
  have c0: "attempts r0 = 1"
    by blast
  from full z c single c0 show ?thesis by blast
qed

text \<open>
  The claim C3 as it is written fails in the full mode when the dev server does not become
  ready: the exception of \<open>startD3k\<close> is caught before the loop has set \<open>attempts\<close>.
\<close>

theorem attempts_zero_when_monitor_times_out:
  "map_option attempts (outcome (runEvalFull timeoutEnv world0 ''001-a'')) = Some 0"
  by (simp add: timeout_full outcome_def)

subsection \<open>The attempt that passes\<close>

text \<open>
  C4.  When in some attempt of a full run every gate ran and passed (the tests only if there
  are test files), that attempt is the last one of the run: no further attempt is logged,
  so the agent is not called again, and \<open>attempts\<close> is the number of that attempt.  The
  result then counts as a success and no exception is recorded.
\<close>

theorem passing_attempt_is_last:
  assumes run: "runEvalFull env w n = (Inr r, w')"
    and i: "i < length (attemptLogs (newEvents w w'))"
    and ok: "allGatesPassed (getEvalTestFiles env n) (attemptLogs (newEvents w w') ! i)"
  shows "Suc i = length (attemptLogs (newEvents w w')) \<and>
         attemptNo (attemptLogs (newEvents w w') ! i) = Suc i \<and>
         attempts r = Suc i \<and> success r \<and> error r = None"
  using run
proof (cases rule: runEvalFull_logs)
  case (unreached e)
  with i show ?thesis by simp
next
  case (reached p r1 logs fault)
  from i ok reached(3) have i': "i < length logs"
    "allGatesPassed (getEvalTestFiles env n) (logs ! i)"
    by auto
  note last = attemptLoop_passed [OF reached(2) i']
  note res = attemptLoop_passed_result [OF reached(2) i']
  note num = attemptLoop_numbers [OF reached(2)]
  from last res num i' reached(3,4) show ?thesis
    by (auto simp: freshResult_def)
qed

theorem passing_attempt_is_last_witness:
  "\<exists>r w'. runEvalFull retryEnv world0 ''001-a'' = (Inr r, w') \<and>
      1 < length (attemptLogs (newEvents world0 w')) \<and>
      allGatesPassed (getEvalTestFiles retryEnv ''001-a'') (attemptLogs (newEvents world0 w') ! 1) \<and>
      Suc 1 = length (attemptLogs (newEvents world0 w')) \<and>
      attemptNo (attemptLogs (newEvents world0 w') ! 1) = Suc 1 \<and>
      attempts r = Suc 1 \<and> success r \<and> error r = None"
proof -
  obtain r w' where full: "runEvalFull retryEnv world0 ''001-a'' = (Inr r, w')"
    and i: "1 < length (attemptLogs (newEvents world0 w'))"
    and ok: "allGatesPassed (getEvalTestFiles retryEnv ''001-a'')
               (attemptLogs (newEvents world0 w') ! 1)"
    by (simp add: retry_full newEvents_def testFiles_demo allGatesPassed_def allGates_def
        failed_def okResult_def)
  from passing_attempt_is_last [OF full i ok] full i ok show ?thesis by blast
qed

subsection \<open>The first-shot mode\<close>

lemma runEval_events:
  "\<exists>evs. trace (snd (runEval env w n)) = trace w @ evs \<and> length (attemptLogs evs) \<le> 1"
proof (cases rule: runEval_cases [of env n w])
  case (noprompt e)
  then show ?thesis by simp
next
  case (staging p fs copies e)
  with stageFiles_copies [OF staging(2)] show ?thesis
    by (simp add: restoreTree_def emit_def attemptLogs_append)
next
  case (attempted p fs copies r1 l fault)
  with stageFiles_copies [OF attempted(2)] show ?thesis
    by (simp add: restoreTree_def emit_def attemptLogs_append)
qed

lemma runEval_result:
  "runEval env w n = (Inr r, w') \<Longrightarrow> attempts r = 1 \<and> mode r = FirstShot \<and> name r = n"
proof (cases rule: runEval_cases [of env n w])
  case (attempted p fs copies r1 l fault)
  assume "runEval env w n = (Inr r, w')"
  with attempted firstShotAttempt_log [OF attempted(3)] show ?thesis
    by (auto simp: freshResult_def)
qed (auto simp: freshResult_def)

lemma runEvals_firstShot:
  "runEvals env False w names acc = (Inr rs, w') \<Longrightarrow>
   (\<exists>rs'. rs = acc @ rs' \<and> length rs' = length names \<and>
      (\<forall>r \<in> set rs'. attempts r = 1 \<and> mode r = FirstShot)) \<and>
   (\<exists>evs. trace w' = trace w @ evs \<and> length (attemptLogs evs) \<le> length names)"
proof (induction names arbitrary: w acc)
  case Nil
  then show ?case by simp
next
  case (Cons n names)
  obtain x w1 where run: "runEval env w n = (x, w1)" by fastforce
  show ?case
  proof (cases x)
    case (Inl e)
    with run Cons.prems show ?thesis by simp
  next
    case (Inr r)
    with run Cons.prems have rest: "runEvals env False w1 names (acc @ [r]) = (Inr rs, w')"
      by simp
    from Cons.IH [OF rest] obtain rs' evs where
      rs': "rs = (acc @ [r]) @ rs'" "length rs' = length names"
        "\<forall>r \<in> set rs'. attempts r = 1 \<and> mode r = FirstShot"
      and evs: "trace w' = trace w1 @ evs" "length (attemptLogs evs) \<le> length names"
      by blast
    from runEval_events [of env w n] run obtain evs1 where
      evs1: "trace w1 = trace w @ evs1" "length (attemptLogs evs1) \<le> 1"
      by auto
    from run Inr runEval_result have r: "attempts r = 1 \<and> mode r = FirstShot" by blast
    have "rs = acc @ (r # rs') \<and> length (r # rs') = length (n # names) \<and>
        (\<forall>r \<in> set (r # rs'). attempts r = 1 \<and> mode r = FirstShot)"
      using rs' r by simp
    moreover have "trace w' = trace w @ (evs1 @ evs) \<and>
        length (attemptLogs (evs1 @ evs)) \<le> length (n # names)"
      using evs evs1 by (simp add: attemptLogs_append)
    ultimately show ?thesis by blast
  qed
qed

lemma main_firstShot:
  assumes "''--full'' \<notin> set args" and "main env args w = (Inr (rs, written), w')"
  shows "(\<forall>r \<in> set rs. attempts r = 1 \<and> mode r = FirstShot) \<and>
         length (attemptLogs (newEvents w w')) \<le> length rs"
proof (cases "gitFetch env")
  case (Some e)
  with assms show ?thesis by (simp add: main_def Let_def)
next
  case None
  define names where "names =
    (if ''--all'' \<in> set args then listEvals env
     else (case findEvalName args of None \<Rightarrow> [] | Some n \<Rightarrow> [n]))"
  show ?thesis
  proof (cases "\<not> (''--all'' \<in> set args \<or>
      (case findEvalName args of None \<Rightarrow> False | Some n \<Rightarrow> n \<noteq> []))")
    case True
    with None assms show ?thesis
      by (auto simp: main_def Let_def newEvents_def)
  next
    case False
    obtain x w1 where run: "runEvals env False w names [] = (x, w1)" by fastforce
    from False None assms run have x: "x = Inr rs" "w1 = w'"
      by (auto simp: main_def Let_def names_def split: sum.splits option.splits if_splits)
    from runEvals_firstShot [OF run [unfolded x]] show ?thesis
      by (auto simp: newEvents_def)
  qed
qed


lemma unreadable_firstShot:
  "runEval unreadableEnv world0 ''001-a'' =
     (Inr \<lparr>name = ''001-a'', build = False, lint = False, tests = False, duration = 5 / 2,
           attempts = 1, mode = FirstShot, error = Some ''Error: EACCES''\<rparr>,
      \<lparr>d3kProcess = None, trace = [GitStash, GitCheckout, GitClean, GitStashPop]\<rparr>)"
  by (simp add: unreadableEnv_def demoEnv_def run_defs)

lemma missingPrompt_firstShot:
  "runEval missingPromptEnv world0 ''001-a'' = (Inl ''Error: Eval 001-a not found'', world0)"
  by (simp add: missingPromptEnv_def demoEnv_def runEval_def getEvalPrompt_def)

lemma demo_main_all:
  "fst (main demoEnv [''--all''] world0) =
     Inr ([\<lparr>name = ''001-a'', build = True, lint = True, tests = True, duration = 5 / 2,
             attempts = 1, mode = FirstShot, error = None\<rparr>,
           \<lparr>name = ''003-add-route'', build = True, lint = True, tests = True,
             duration = 5 / 2, attempts = 1, mode = FirstShot, error = None\<rparr>], None)"
  by (simp add: main_def listEvals_def evalNamePattern_def isDigit_def demoEnv_def run_defs)



subsection \<open>The feedback of an attempt\<close>

lemma browser_full:
  "runEvalFull browserEnv world0 ''001-a'' =
     (Inr \<lparr>name = ''001-a'', build = True, lint = True, tests = True, duration = 5 / 2,
           attempts = 2, mode = Full, error = None\<rparr>,
      \<lparr>d3kProcess = None,
       trace = [GitStash,
                CopyTest ''/c/evals/001-a/input/a.test.ts'' ''/p/a.test.ts'',
                CopyStub ''/c/evals/001-a/input/a.ts'' ''/p/a.ts'',
                ClearD3kLogs, D3kSpawn 7,
                Attempt \<lparr>attemptNo = 1, payload = ''Add a route.'' @ NL @ NL @ INSTRUCTIONS,
                         browserErrors = Some ''boom'',
                         gates = [(Build, okResult), (Lint, okResult), (Tests, badResult)]\<rparr>,
                Attempt \<lparr>attemptNo = 2,
                         payload =
                           ''Add a route.'' @ NL @ NL @ INSTRUCTIONS @ NL @ NL @
                           ''PREVIOUS ATTEMPT FAILED. Here's the error from the browser/build:'' @
                           NL @ ''Tests failed:'' @ NL @ ''out'' @ NL @ ''err'' @ NL @ NL @
                           ''Browser console errors:'' @ NL @ ''boom'' @ NL @ NL @
                           ''Please fix the issue and try again.'',
                         browserErrors = None,
                         gates = [(Build, okResult), (Lint, okResult), (Tests, okResult)]\<rparr>,
                D3kKill 7, GitCheckout, GitClean, GitStashPop]\<rparr>)"
  by (simp add: browserEnv_def demoEnv_def run_defs composePrompt_def withInstructions_def
      feedbackSuffix_def testsFeedback_def)

lemma twoFailures_full:
  "runEvalFull twoFailuresEnv world0 ''001-a'' =
     (Inr \<lparr>name = ''001-a'', build = True, lint = True, tests = True, duration = 5 / 2,
           attempts = 3, mode = Full, error = None\<rparr>,
      \<lparr>d3kProcess = None,
       trace = [GitStash,
                CopyTest ''/c/evals/001-a/input/a.test.ts'' ''/p/a.test.ts'',
                CopyStub ''/c/evals/001-a/input/a.ts'' ''/p/a.ts'',
                ClearD3kLogs, D3kSpawn 7,
                Attempt \<lparr>attemptNo = 1, payload = ''Add a route.'' @ NL @ NL @ INSTRUCTIONS,
                         browserErrors = None, gates = [(Build, badResult)]\<rparr>,
                Attempt \<lparr>attemptNo = 2,
                         payload =
                           ''Add a route.'' @ NL @ NL @ INSTRUCTIONS @ NL @ NL @
                           ''PREVIOUS ATTEMPT FAILED. Here's the error from the browser/build:'' @
                           NL @ ''Build failed:'' @ NL @ ''err'' @ NL @ ''out'' @ NL @ NL @
                           ''Please fix the issue and try again.'',
                         browserErrors = None,
                         gates = [(Build, okResult), (Lint, lintBad)]\<rparr>,
                Attempt \<lparr>attemptNo = 3,
                         payload =
                           ''Add a route.'' @ NL @ NL @ INSTRUCTIONS @ NL @ NL @
                           ''PREVIOUS ATTEMPT FAILED. Here's the error from the browser/build:'' @
                           NL @ ''Lint failed:'' @ NL @ ''lint err'' @ NL @ ''lint out'' @ NL @ NL @
                           ''Please fix the issue and try again.'',
                         browserErrors = None,
                         gates = [(Build, okResult), (Lint, okResult), (Tests, okResult)]\<rparr>,
                D3kKill 7, GitCheckout, GitClean, GitStashPop]\<rparr>)"
  by (simp add: twoFailuresEnv_def demoEnv_def run_defs composePrompt_def withInstructions_def
      feedbackSuffix_def buildFeedback_def lintFeedback_def lintBad_def)

text \<open>
  C2, as the code has it.  In a full run, the prompt of attempt \<open>i + 2\<close> is the base
  prompt with the instructions, followed by a paragraph that frames the failure text of
  the first failing gate of attempt \<open>i + 1\<close>: a line that names the gate, the two
  streams that the process of that gate gave in attempt \<open>i + 1\<close>, and for the tests
  also the browser errors read in that attempt.  Nothing of an earlier attempt is in it.
  The first prompt has no feedback.
\<close>

theorem feedback_frames_previous_first_failure:
  assumes run: "runEvalFull env w n = (Inr r, w')"
    and base: "getEvalPrompt env n = Inr base"
    and i: "Suc i < length (attemptLogs (newEvents w w'))"
  shows "(\<exists>g res. firstFailure (attemptLogs (newEvents w w') ! i) = Some (g, res) \<and>
            gateRun g (attemptEnv env n (Suc i)) = Inr res \<and>
            payload (attemptLogs (newEvents w w') ! Suc i) =
              base @ NL @ NL @ INSTRUCTIONS @ NL @ NL @
              ''PREVIOUS ATTEMPT FAILED. Here's the error from the browser/build:'' @ NL @
              failureText g res (d3kErrors (attemptEnv env n (Suc i))) @ NL @ NL @
              ''Please fix the issue and try again.'') \<and>
         payload (attemptLogs (newEvents w w') ! 0) = base @ NL @ NL @ INSTRUCTIONS"
  using run
proof (cases rule: runEvalFull_logs)
  case (unreached e)
  with i show ?thesis by simp
next
  case (reached p r1 logs fault)
  from base reached(1) have p: "p = base" by simp
  from i reached(3) have len: "Suc i < length logs" "logs \<noteq> []" by auto
  note fb = attemptLoop_feedback [OF reached(2)]
  from fb len obtain g res where
    first: "firstFailure (logs ! i) = Some (g, res)"
    and pay: "payload (logs ! Suc i) =
      withInstructions p @ feedbackSuffix (failureText g res (browserErrors (logs ! i)))"
    by blast
  from len have mem: "logs ! i \<in> set logs" by simp
  from attemptLoop_numbers [OF reached(2)] len have no: "attemptNo (logs ! i) = Suc i"
    by simp
  from first have g: "(g, res) \<in> set (gates (logs ! i))"
    by (auto simp: firstFailure_def find_Some_iff)
  note o = attemptLoop_observed [OF reached(2) mem]
  from o g no have tie: "gateRun g (attemptEnv env n (Suc i)) = Inr res"
    "browserErrors (logs ! i) = d3kErrors (attemptEnv env n (Suc i))"
    by auto
  from fb len have zero: "payload (logs ! 0) = withInstructions p"
    by (simp add: composePrompt_def hd_conv_nth)
  from first tie pay zero show ?thesis
    unfolding reached(3) p
    by (simp add: withInstructions_def feedbackSuffix_def)
qed

theorem feedback_frames_previous_first_failure_witness:
  "\<exists>r w'. runEvalFull twoFailuresEnv world0 ''001-a'' = (Inr r, w') \<and>
      getEvalPrompt twoFailuresEnv ''001-a'' = Inr ''Add a route.'' \<and>
      Suc 1 < length (attemptLogs (newEvents world0 w')) \<and>
      firstFailure (attemptLogs (newEvents world0 w') ! 0) = Some (Build, badResult) \<and>
      firstFailure (attemptLogs (newEvents world0 w') ! 1) = Some (Lint, lintBad) \<and>
      gateRun Lint (attemptEnv twoFailuresEnv ''001-a'' (Suc 1)) = Inr lintBad \<and>
      payload (attemptLogs (newEvents world0 w') ! Suc 1) =
        ''Add a route.'' @ NL @ NL @ INSTRUCTIONS @ NL @ NL @
        ''PREVIOUS ATTEMPT FAILED. Here's the error from the browser/build:'' @ NL @
        ''Lint failed:'' @ NL @ ''lint err'' @ NL @ ''lint out'' @ NL @ NL @
        ''Please fix the issue and try again.'' \<and>
      payload (attemptLogs (newEvents world0 w') ! 0) = ''Add a route.'' @ NL @ NL @ INSTRUCTIONS"
proof -
  obtain r w' where full: "runEvalFull twoFailuresEnv world0 ''001-a'' = (Inr r, w')"
    and i: "Suc 1 < length (attemptLogs (newEvents world0 w'))"
    and f0: "firstFailure (attemptLogs (newEvents world0 w') ! 0) = Some (Build, badResult)"
    and f1: "firstFailure (attemptLogs (newEvents world0 w') ! 1) = Some (Lint, lintBad)"
    by (simp add: twoFailures_full newEvents_def firstFailure_def failed_def badResult_def
        okResult_def lintBad_def)
  have p: "getEvalPrompt twoFailuresEnv ''001-a'' = Inr ''Add a route.''"
    by (simp add: twoFailuresEnv_def getEvalPrompt_def demoEnv_def js_trim_def isSpace_def
        NL_def)
  have d: "d3kErrors (attemptEnv twoFailuresEnv ''001-a'' (Suc 1)) = None"
    by (simp add: twoFailuresEnv_def passing_def)
  have t: "failureText Lint lintBad None = ''Lint failed:'' @ NL @ ''lint err'' @ NL @ ''lint out''"
    by (simp add: failureText_def lintBad_def)
  from feedback_frames_previous_first_failure [OF full p i] f1 d t
  have c: "gateRun Lint (attemptEnv twoFailuresEnv ''001-a'' (Suc 1)) = Inr lintBad \<and>
      payload (attemptLogs (newEvents world0 w') ! Suc 1) =
        ''Add a route.'' @ NL @ NL @ INSTRUCTIONS @ NL @ NL @
        ''PREVIOUS ATTEMPT FAILED. Here's the error from the browser/build:'' @ NL @
        ''Lint failed:'' @ NL @ ''lint err'' @ NL @ ''lint out'' @ NL @ NL @
        ''Please fix the issue and try again.'' \<and>
      payload (attemptLogs (newEvents world0 w') ! 0) = ''Add a route.'' @ NL @ NL @ INSTRUCTIONS"
    by simp
  from full p i f0 f1 c show ?thesis
    by blast
qed

text \<open>
  The claim C2 as it is written fails: what is appended to the prompt is not exactly the
  output of the failing gate.  Here the tests fail in the first attempt with the output
  \<open>out\<close> and the error output \<open>err\<close>, and the text appended to the second prompt
  has the frame, the line that names the gate, and the error found in the log of the dev
  server.
\<close>

theorem feedback_is_not_only_the_gate_output:
  "firstFailure (attemptLogs (newEvents world0 (snd (runEvalFull browserEnv world0 ''001-a''))) ! 0)
     = Some (Tests, badResult) \<and>
   stdout badResult = ''out'' \<and> stderr badResult = ''err'' \<and>
   d3kErrors (attemptEnv browserEnv ''001-a'' 1) = Some ''boom'' \<and>
   payload (attemptLogs (newEvents world0 (snd (runEvalFull browserEnv world0 ''001-a''))) ! 1) =
     ''Add a route.'' @ NL @ NL @ INSTRUCTIONS @ NL @ NL @
     ''PREVIOUS ATTEMPT FAILED. Here's the error from the browser/build:'' @ NL @
     ''Tests failed:'' @ NL @ ''out'' @ NL @ ''err'' @ NL @ NL @
     ''Browser console errors:'' @ NL @ ''boom'' @ NL @ NL @
     ''Please fix the issue and try again.''"
proof -
  have "d3kErrors (attemptEnv browserEnv ''001-a'' 1) = Some ''boom''"
    by (simp add: browserEnv_def passing_def)
  then show ?thesis
    by (simp add: browser_full newEvents_def firstFailure_def failed_def badResult_def
        okResult_def)
qed

subsection \<open>Exceptions and teardown\<close>

text \<open>
  The exceptions that the runners meet are those that the environment answers: the monitor
  is ready exactly when one of its 30 polls succeeds, and staging throws what the first
  failing read throws.
\<close>

lemma waitReady_from:
  "waitReady env n k = (\<exists>i. k \<le> i \<and> i < 30 \<and> d3kHealthy env n i)"
proof (induction "30 - k" arbitrary: k)
  case 0
  then have "\<not> k < 30" by simp
  then show ?case by (subst waitReady.simps) auto
next
  case (Suc m)
  then have lt: "k < 30" by simp
  have ih: "waitReady env n (k + 1) = (\<exists>i. k + 1 \<le> i \<and> i < 30 \<and> d3kHealthy env n i)"
    by (rule Suc.hyps(1)) (use Suc.hyps(2) in simp)
  have "(\<exists>i. k \<le> i \<and> i < 30 \<and> d3kHealthy env n i) =
      (d3kHealthy env n k \<or> (\<exists>i. k + 1 \<le> i \<and> i < 30 \<and> d3kHealthy env n i))"
    using lt by (metis Suc_eq_plus1 Suc_leI le_neq_implies_less nat_le_linear not_less_eq_eq)
  with lt ih show ?case by (subst waitReady.simps) simp
qed

lemma monitorThrow_waitReady:
  "monitorThrow env n =
     (case spawnD3k env n of
        Inl e \<Rightarrow> Some e
      | Inr pid \<Rightarrow>
          if waitReady env n 0 then None
          else Some ''Error: d3k server failed to start within 30s'')"
  by (auto simp: monitorThrow_def waitReady_from split: sum.splits)

lemma firstThrow_append:
  "firstThrow (xs @ ys) = (case firstThrow xs of Some e \<Rightarrow> Some e | None \<Rightarrow> firstThrow ys)"
  by (induction xs rule: firstThrow.induct) auto

lemma copyTestFiles_throw:
  "snd (snd (copyTestFiles env d ts fs0)) = firstThrow (map (cacheFile env) ts)"
  by (induction ts arbitrary: fs0)
     (auto simp: cpSync_def Let_def split_beta split: sum.splits)

lemma copyTestFiles_dom:
  "snd (snd (copyTestFiles env d ts fs0)) = None \<Longrightarrow>
   dom (fst (copyTestFiles env d ts fs0)) = dom fs0 \<union> destPathOf env d ` set ts"
proof (induction ts arbitrary: fs0)
  case Nil
  then show ?case by simp
next
  case (Cons a ts)
  show ?case
  proof (cases "cacheFile env a")
    case (Inl e)
    with Cons.prems show ?thesis by (simp add: cpSync_def Let_def)
  next
    case (Inr c)
    with Cons.prems have rest:
      "snd (snd (copyTestFiles env d ts (fs0(destPathOf env d a \<mapsto> c)))) = None"
      by (simp add: cpSync_def Let_def split_beta)
    have "dom (fst (copyTestFiles env d ts (fs0(destPathOf env d a \<mapsto> c)))) =
        dom (fs0(destPathOf env d a \<mapsto> c)) \<union> destPathOf env d ` set ts"
      by (rule Cons.IH [OF rest])
    with Inr show ?thesis
      by (simp add: cpSync_def Let_def split_beta)
  qed
qed

lemma copyStubFiles_throw:
  "snd (snd (copyStubFiles env d stubs fs0)) =
     firstThrow (map (cacheFile env) (stubsRead (destPathOf env d) (dom fs0) stubs))"
proof (induction stubs arbitrary: fs0)
  case Nil
  then show ?case by simp
next
  case (Cons a stubs)
  have same: "snd (snd (copyStubFiles env d stubs fs0)) =
     firstThrow (map (cacheFile env) (stubsRead (destPathOf env d) (dom fs0) stubs))"
    by (rule Cons.IH)
  have upd: "snd (snd (copyStubFiles env d stubs (fs0(destPathOf env d a \<mapsto> c)))) =
     firstThrow (map (cacheFile env)
       (stubsRead (destPathOf env d) (insert (destPathOf env d a) (dom fs0)) stubs))" for c
  proof -
    have "snd (snd (copyStubFiles env d stubs (fs0(destPathOf env d a \<mapsto> c)))) =
       firstThrow (map (cacheFile env)
         (stubsRead (destPathOf env d) (dom (fs0(destPathOf env d a \<mapsto> c))) stubs))"
      by (rule Cons.IH)
    also have "dom (fs0(destPathOf env d a \<mapsto> c)) = insert (destPathOf env d a) (dom fs0)"
      by simp
    finally show ?thesis .
  qed
  show ?case
    by (cases "cacheFile env a")
       (auto simp: cpSync_def Let_def split_beta same upd domIff)
qed

lemma stageFiles_throw:
  "snd (snd (stageFiles env n (getEvalTestFiles env n))) = stagingThrow env n"
proof -
  define d where "d = inputDirOf env n"
  define tfs where "tfs = getEvalTestFiles env n"
  define T where "T = copyTestFiles env d tfs (workingTree env n)"
  show ?thesis
  proof (cases "snd (snd T)")
    case (Some e)
    then have "stageFiles env n tfs = (fst T, fst (snd T), Some e)"
      unfolding T_def d_def by (rule stageFiles_fault)
    moreover from Some have "firstThrow (map (cacheFile env) tfs) = Some e"
      unfolding T_def by (simp add: copyTestFiles_throw)
    ultimately show ?thesis
      by (simp add: stagingThrow_def stagingReads_def Let_def firstThrow_append tfs_def)
  next
    case None
    note st = stageFiles_stubs [OF None [unfolded T_def d_def]]
    from None have t: "firstThrow (map (cacheFile env) tfs) = None"
      unfolding T_def by (simp add: copyTestFiles_throw)
    from None have dm: "dom (fst T) = dom (workingTree env n) \<union> destPathOf env d ` set tfs"
      unfolding T_def by (rule copyTestFiles_dom)
    show ?thesis
      unfolding tfs_def [symmetric] st
      by (simp add: stagingThrow_def stagingReads_def Let_def firstThrow_append t
          copyStubFiles_throw dm [unfolded T_def] d_def [symmetric] tfs_def [symmetric])
  qed
qed

lemma attemptBody_throw:
  "attemptBody env n base tfs a r fb = (r1, fb1, l, sg) \<Longrightarrow>
   attemptThrow (a < MAX_FULL_ATTEMPTS) (tfs \<noteq> []) (attemptEnv env n a) =
     (case sg of Throw e \<Rightarrow> Some e | _ \<Rightarrow> None)"
  by (auto simp: stage_defs attemptThrow_def split: sum.splits if_splits)

lemma firstShotAttempt_throw:
  "firstShotAttempt env n p tfs r = (r1, l, fault) \<Longrightarrow>
   fault = attemptThrow False (tfs \<noteq> []) (attemptEnv env n 1)"
  by (auto simp: firstShotAttempt_def attemptThrow_def Let_def split: sum.splits if_splits)

lemma attemptBody_fields:
  "attemptBody env n base tfs a r fb = (r1, fb1, l, sg) \<Longrightarrow>
   build r1 = (case map_of (gates l) Build of None \<Rightarrow> build r | Some res \<Rightarrow> exitCode res = 0) \<and>
   lint r1 = (case map_of (gates l) Lint of None \<Rightarrow> lint r | Some res \<Rightarrow> exitCode res = 0) \<and>
   (tfs \<noteq> [] \<longrightarrow>
      tests r1 = (case map_of (gates l) Tests of None \<Rightarrow> tests r | Some res \<Rightarrow> exitCode res = 0))"
  by (auto simp: stage_defs split: sum.splits if_splits)

lemma firstShotAttempt_fields:
  "firstShotAttempt env n p tfs r = (r1, l, fault) \<Longrightarrow>
   build r1 = (case map_of (gates l) Build of None \<Rightarrow> build r | Some res \<Rightarrow> exitCode res = 0) \<and>
   lint r1 = (case map_of (gates l) Lint of None \<Rightarrow> lint r | Some res \<Rightarrow> exitCode res = 0) \<and>
   (tfs \<noteq> [] \<longrightarrow>
      tests r1 = (case map_of (gates l) Tests of None \<Rightarrow> tests r | Some res \<Rightarrow> exitCode res = 0))"
  by (auto simp: firstShotAttempt_def appendGate_def Let_def split: sum.splits if_splits)

lemma attemptLoop_throw:
  "attemptLoop env n base tfs a r fb = (r', logs, fault) \<Longrightarrow> l \<in> set logs \<Longrightarrow>
   attemptThrow (attemptNo l < MAX_FULL_ATTEMPTS) (tfs \<noteq> []) (attemptEnv env n (attemptNo l))
     \<noteq> None \<Longrightarrow>
   fault =
     attemptThrow (attemptNo l < MAX_FULL_ATTEMPTS) (tfs \<noteq> []) (attemptEnv env n (attemptNo l))"
proof (induction "MAX_FULL_ATTEMPTS + 1 - a" arbitrary: a r fb r' logs fault)
  case 0
  then have "\<not> a \<le> MAX_FULL_ATTEMPTS" by simp
  with "0.prems" show ?case
    by (cases rule: attemptLoop_cases [of a env n base tfs r fb]) auto
next
  case (Suc k)
  have one: "attemptThrow (attemptNo l < MAX_FULL_ATTEMPTS) (tfs \<noteq> [])
        (attemptEnv env n (attemptNo l)) = (case sg of Throw e \<Rightarrow> Some e | _ \<Rightarrow> None)"
    if body: "attemptBody env n base tfs a r fb = (r1, fb1, l, sg)" for r1 fb1 sg
    using attemptBody_log [OF body] attemptBody_throw [OF body] by simp
  show ?case
  proof (cases rule: attemptLoop_cases [of a env n base tfs r fb])
    case finished
    with Suc.prems show ?thesis by auto
  next
    case (thrown r1 fb1 l' e)
    with Suc.prems have "l' = l" "fault = Some e" by auto
    with thrown(2) one [of r1 fb1 "Throw e"] show ?thesis by simp
  next
    case (broke r1 fb1 l')
    with Suc.prems have "l' = l" by auto
    with broke(2) one [of r1 fb1 Break] Suc.prems(3) show ?thesis by simp
  next
    case (ended r1 fb1 l')
    with Suc.prems have "l' = l" by auto
    with ended(2) one [of r1 fb1 Next] Suc.prems(3) show ?thesis by simp
  next
    case (retried r1 fb1 l' r2 ls f)
    have k: "k = MAX_FULL_ATTEMPTS + 1 - (a + 1)" using Suc.hyps(2) by simp
    from retried(4) Suc.prems have eq: "r' = r2" "logs = l' # ls" "fault = f" by auto
    with Suc.prems(2) consider "l = l'" | "l \<in> set ls" by auto
    then show ?thesis
    proof cases
      case 1
      with retried(2) one [of r1 fb1 Continue] Suc.prems(3) show ?thesis by simp
    next
      case 2
      from Suc.hyps(1) [OF k retried(3) 2 Suc.prems(3)] eq show ?thesis by simp
    qed
  qed
qed

lemma lastObserved_single:
  "x1 = (case map_of (gates l) g of None \<Rightarrow> x0 | Some res \<Rightarrow> exitCode res = 0) \<Longrightarrow>
   x1 = (case lastObserved g [l] of None \<Rightarrow> x0 | Some b \<Rightarrow> b)"
  by (simp split: option.splits)

lemma lastObserved_step:
  "x1 = (case map_of (gates l) g of None \<Rightarrow> x0 | Some res \<Rightarrow> exitCode res = 0) \<Longrightarrow>
   x2 = (case lastObserved g ls of None \<Rightarrow> x1 | Some b \<Rightarrow> b) \<Longrightarrow>
   x2 = (case lastObserved g (l # ls) of None \<Rightarrow> x0 | Some b \<Rightarrow> b)"
  by (simp split: option.splits)

lemma attemptLoop_fields:
  "attemptLoop env n base tfs a r fb = (r', logs, fault) \<Longrightarrow>
   build r' = (case lastObserved Build logs of None \<Rightarrow> build r | Some b \<Rightarrow> b) \<and>
   lint r' = (case lastObserved Lint logs of None \<Rightarrow> lint r | Some b \<Rightarrow> b) \<and>
   (tfs \<noteq> [] \<longrightarrow>
      tests r' = (case lastObserved Tests logs of None \<Rightarrow> tests r | Some b \<Rightarrow> b))"
proof (induction "MAX_FULL_ATTEMPTS + 1 - a" arbitrary: a r fb r' logs fault)
  case 0
  then have "\<not> a \<le> MAX_FULL_ATTEMPTS" by simp
  with "0.prems" show ?case
    by (cases rule: attemptLoop_cases [of a env n base tfs r fb]) auto
next
  case (Suc k)
  have one: "build r1 = (case lastObserved Build [l] of None \<Rightarrow> build r | Some b \<Rightarrow> b) \<and>
      lint r1 = (case lastObserved Lint [l] of None \<Rightarrow> lint r | Some b \<Rightarrow> b) \<and>
      (tfs \<noteq> [] \<longrightarrow>
         tests r1 = (case lastObserved Tests [l] of None \<Rightarrow> tests r | Some b \<Rightarrow> b))"
    if body: "attemptBody env n base tfs a r fb = (r1, fb1, l, sg)" for r1 fb1 l sg
    using attemptBody_fields [OF body] by (intro conjI impI lastObserved_single) simp_all
  show ?case
  proof (cases rule: attemptLoop_cases [of a env n base tfs r fb])
    case finished
    with Suc.prems show ?thesis by auto
  next
    case (thrown r1 fb1 l e)
    from thrown(3) Suc.prems have "r' = r1" "logs = [l]" by simp_all
    with one [OF thrown(2)] show ?thesis by simp
  next
    case (broke r1 fb1 l)
    from broke(3) Suc.prems have "r' = r1" "logs = [l]" by simp_all
    with one [OF broke(2)] show ?thesis by simp
  next
    case (ended r1 fb1 l)
    from ended(3) Suc.prems have "r' = r1" "logs = [l]" by simp_all
    with one [OF ended(2)] show ?thesis by simp
  next
    case (retried r1 fb1 l r2 ls f)
    have k: "k = MAX_FULL_ATTEMPTS + 1 - (a + 1)" using Suc.hyps(2) by simp
    note ih = Suc.hyps(1) [OF k retried(3)]
    note b = attemptBody_fields [OF retried(2)]
    from retried(4) Suc.prems have eq: "r' = r2" "logs = l # ls" by simp_all
    have "build r2 = (case lastObserved Build (l # ls) of None \<Rightarrow> build r | Some b \<Rightarrow> b)"
      using b ih by (intro lastObserved_step [where ?x1.0 = "build r1"]) simp_all
    moreover
    have "lint r2 = (case lastObserved Lint (l # ls) of None \<Rightarrow> lint r | Some b \<Rightarrow> b)"
      using b ih by (intro lastObserved_step [where ?x1.0 = "lint r1"]) simp_all
    moreover
    have "tests r2 = (case lastObserved Tests (l # ls) of None \<Rightarrow> tests r | Some b \<Rightarrow> b)"
      if "tfs \<noteq> []"
      using b ih that by (intro lastObserved_step [where ?x1.0 = "tests r1"]) simp_all
    ultimately show ?thesis
      unfolding eq by blast
  qed
qed

lemma newEvents_teardown:
  "newEvents w (restoreTree (stopD3k ((emit evs w)\<lparr>d3kProcess := Some pid\<rparr>)))
     = evs @ D3kKill pid # restoreCommands"
  "newEvents w (restoreTree (stopD3k (emit evs w)))
     = evs @ (case d3kProcess w of None \<Rightarrow> [] | Some p \<Rightarrow> [D3kKill p]) @ restoreCommands"
  "newEvents w (restoreTree (emit evs w)) = evs @ restoreCommands"
  by (simp_all add: newEvents_def emit_def restoreTree_def stopD3k_def restoreCommands_def
      split: option.splits)

lemma trace_teardown:
  "trace (restoreTree (stopD3k ((emit evs w)\<lparr>d3kProcess := h\<rparr>)))
     = trace w @ newEvents w (restoreTree (stopD3k ((emit evs w)\<lparr>d3kProcess := h\<rparr>)))"
  "trace (restoreTree (stopD3k (emit evs w)))
     = trace w @ newEvents w (restoreTree (stopD3k (emit evs w)))"
  "trace (restoreTree (emit evs w)) = trace w @ newEvents w (restoreTree (emit evs w))"
  "d3kProcess (restoreTree (emit evs w)) = d3kProcess w"
  by (simp_all add: newEvents_def emit_def restoreTree_def stopD3k_def split: option.splits)

lemma runEvalFull_error:
  assumes run: "runEvalFull env w n = (Inr r, w')"
  shows "(stagingThrow env n \<noteq> None \<longrightarrow> error r = stagingThrow env n) \<and>
    (stagingThrow env n = None \<longrightarrow> monitorThrow env n \<noteq> None \<longrightarrow>
       error r = monitorThrow env n) \<and>
    (\<forall>l \<in> set (attemptLogs (newEvents w w')).
       thrownIn env n Full l \<noteq> None \<longrightarrow> error r = thrownIn env n Full l) \<and>
    (stagingThrow env n = None \<longrightarrow> monitorThrow env n = None \<longrightarrow>
       (\<exists>l \<in> set (attemptLogs (newEvents w w')). attemptNo l = 1)) \<and>
    (error r \<noteq> None \<longrightarrow> \<not> success r)"
proof (cases rule: runEvalFull_cases [of env n w])
  case (noprompt e)
  with run show ?thesis by simp
next
  case (staging p fs copies e)
  from staging(2) stageFiles_throw [of env n] have "stagingThrow env n = Some e" by simp
  with run staging stageFiles_copies [OF staging(2)] show ?thesis
    by (auto simp: attemptLogs_teardown freshResult_def success_def)
next
  case (spawn p fs copies e)
  from spawn(2) stageFiles_throw [of env n] have "stagingThrow env n = None" by simp
  moreover from spawn(3) have "monitorThrow env n = Some e"
    by (simp add: monitorThrow_waitReady)
  ultimately show ?thesis
    using run spawn stageFiles_copies [OF spawn(2)]
    by (auto simp: attemptLogs_teardown attemptLogs_append freshResult_def success_def)
next
  case (timeout p fs copies pid)
  from timeout(2) stageFiles_throw [of env n] have "stagingThrow env n = None" by simp
  moreover from timeout(3,4)
  have "monitorThrow env n = Some ''Error: d3k server failed to start within 30s''"
    by (simp add: monitorThrow_waitReady)
  ultimately show ?thesis
    using run timeout stageFiles_copies [OF timeout(2)]
    by (auto simp: attemptLogs_teardown attemptLogs_append freshResult_def success_def)
next
  case (looped p fs copies pid r1 logs fault)
  from looped(2) stageFiles_throw [of env n] have st: "stagingThrow env n = None" by simp
  from looped(3,4) have mo: "monitorThrow env n = None"
    by (simp add: monitorThrow_waitReady)
  from run looped stageFiles_copies [OF looped(2)]
  have lg: "attemptLogs (newEvents w w') = logs"
    and r: "r = (recordFault fault r1)\<lparr>duration := elapsed env n\<rparr>"
    by (auto simp: attemptLogs_teardown attemptLogs_append attemptLogs_map)
  note num = attemptLoop_numbers [OF looped(5)]
  from num have e1: "error r1 = None" by (simp add: freshResult_def)
  with r have err: "error r = fault" by (cases fault) simp_all
  have thrown: "error r = thrownIn env n Full l"
    if "l \<in> set logs" "thrownIn env n Full l \<noteq> None" for l
    using attemptLoop_throw [OF looped(5) that(1)] that(2) err
    by (simp add: thrownIn_def)
  from num have first: "\<exists>l \<in> set logs. attemptNo l = 1"
    by (auto simp: MAX_FULL_ATTEMPTS_def intro!: bexI [of _ "logs ! 0"])
  have fail: "\<not> success r" if "error r \<noteq> None"
  proof -
    from that err obtain e where "fault = Some e" by auto
    with attemptLoop_fault [of env n p "getEvalTestFiles env n" 1 "freshResult n 0 Full" "[]" r1 logs e]
      looped(5)
    have "\<not> tests r1" by (simp add: freshResult_def)
    with r show ?thesis by (simp add: success_def)
  qed
  from st mo lg thrown first fail show ?thesis by simp
qed

lemma runEvalFull_fields:
  assumes run: "runEvalFull env w n = (Inr r, w')"
  shows "build r = (lastObserved Build (attemptLogs (newEvents w w')) = Some True) \<and>
    lint r = (lastObserved Lint (attemptLogs (newEvents w w')) = Some True) \<and>
    (getEvalTestFiles env n \<noteq> [] \<longrightarrow>
       tests r = (lastObserved Tests (attemptLogs (newEvents w w')) = Some True)) \<and>
    (\<forall>l \<in> set (attemptLogs (newEvents w w')). \<forall>(g, res) \<in> set (gates l).
       gateRun g (attemptEnv env n (attemptNo l)) = Inr res)"
proof (cases rule: runEvalFull_cases [of env n w])
  case (noprompt e)
  with run show ?thesis by simp
next
  case (staging p fs copies e)
  with run stageFiles_copies [OF staging(2)] show ?thesis
    by (auto simp: attemptLogs_teardown freshResult_def)
next
  case (spawn p fs copies e)
  with run stageFiles_copies [OF spawn(2)] show ?thesis
    by (auto simp: attemptLogs_teardown attemptLogs_append freshResult_def)
next
  case (timeout p fs copies pid)
  with run stageFiles_copies [OF timeout(2)] show ?thesis
    by (auto simp: attemptLogs_teardown attemptLogs_append freshResult_def)
next
  case (looped p fs copies pid r1 logs fault)
  from run looped stageFiles_copies [OF looped(2)]
  have lg: "attemptLogs (newEvents w w') = logs"
    and r: "r = (recordFault fault r1)\<lparr>duration := elapsed env n\<rparr>"
    by (auto simp: attemptLogs_teardown attemptLogs_append attemptLogs_map)
  have fresh:
    "(case ob of None \<Rightarrow> build (freshResult n 0 Full) | Some b \<Rightarrow> b) = (ob = Some True)"
    "(case ob of None \<Rightarrow> lint (freshResult n 0 Full) | Some b \<Rightarrow> b) = (ob = Some True)"
    "(case ob of None \<Rightarrow> tests (freshResult n 0 Full) | Some b \<Rightarrow> b) = (ob = Some True)"
    for ob
    by (cases ob; simp add: freshResult_def)+
  from attemptLoop_fields [OF looped(5)]
  have "build r1 = (lastObserved Build logs = Some True) \<and>
    lint r1 = (lastObserved Lint logs = Some True) \<and>
    (getEvalTestFiles env n \<noteq> [] \<longrightarrow> tests r1 = (lastObserved Tests logs = Some True))"
    by (simp add: fresh)
  with r have "build r = (lastObserved Build logs = Some True) \<and>
    lint r = (lastObserved Lint logs = Some True) \<and>
    (getEvalTestFiles env n \<noteq> [] \<longrightarrow> tests r = (lastObserved Tests logs = Some True))"
    by simp
  moreover have "gateRun g (attemptEnv env n (attemptNo l)) = Inr res"
    if "l \<in> set logs" "(g, res) \<in> set (gates l)" for l g res
    using attemptLoop_observed [OF looped(5) that(1)] that(2) by blast
  ultimately show ?thesis
    unfolding lg by blast
qed

lemma teardown_handle: "d3kProcess (restoreTree (stopD3k w1)) = None"
  by (simp add: restoreTree_def stopD3k_def emit_def split: option.splits)

lemma suffix_restore: "suffix restoreCommands (evs @ restoreCommands)"
  "suffix restoreCommands (evs @ k # restoreCommands)"
  "suffix restoreCommands (evs @ ks @ restoreCommands)"
  "suffix (k # restoreCommands) (evs @ k # restoreCommands)"
  by (simp_all add: suffix_appendI suffix_ConsI)

lemma restore_no_spawn: "D3kSpawn pid \<notin> set restoreCommands"
  by (simp add: restoreCommands_def)

lemma attempts_no_spawn: "D3kSpawn pid \<notin> set (map Attempt logs)"
  by auto

lemma runEvalFull_teardown:
  assumes run: "runEvalFull env w n = (Inr r, w')"
  shows "trace w' = trace w @ newEvents w w' \<and>
    suffix restoreCommands (newEvents w w') \<and>
    d3kProcess w' = None \<and>
    (\<forall>pid. D3kSpawn pid \<in> set (newEvents w w') \<longrightarrow>
       suffix (D3kKill pid # restoreCommands) (newEvents w w')) \<and>
    (\<forall>pid. stagingThrow env n = None \<longrightarrow> spawnD3k env n = Inr pid \<longrightarrow>
       D3kSpawn pid \<in> set (newEvents w w'))"
proof (cases rule: runEvalFull_cases [of env n w])
  case (noprompt e)
  with run show ?thesis by simp
next
  case (staging p fs copies e)
  from staging(2) stageFiles_throw [of env n] have st: "stagingThrow env n = Some e" by simp
  from staging(2) have ns: "D3kSpawn pid \<notin> set copies" for pid
    using stageFiles_no_spawn [of pid env n "getEvalTestFiles env n"] by simp
  from run staging(3) have w': "w' = restoreTree (stopD3k (emit (GitStash # copies) w))"
    by simp
  have tr: "trace w' = trace w @ newEvents w w'" and h: "d3kProcess w' = None"
    unfolding w' by (rule trace_teardown, rule teardown_handle)
  have ne: "newEvents w w' = (GitStash # copies) @
      (case d3kProcess w of None \<Rightarrow> [] | Some p \<Rightarrow> [D3kKill p]) @ restoreCommands"
    unfolding w' by (rule newEvents_teardown)
  from tr h show ?thesis
    unfolding ne
    by (simp add: suffix_restore suffix_appendI suffix_ConsI st ns restore_no_spawn
        split: option.splits)
next
  case (spawn p fs copies e)
  from spawn(2) have ns: "D3kSpawn pid \<notin> set copies" for pid
    using stageFiles_no_spawn [of pid env n "getEvalTestFiles env n"] by simp
  from run spawn(4)
  have w': "w' = restoreTree (stopD3k (emit (GitStash # copies @ [ClearD3kLogs]) w))"
    by simp
  have tr: "trace w' = trace w @ newEvents w w'" and h: "d3kProcess w' = None"
    unfolding w' by (rule trace_teardown, rule teardown_handle)
  have ne: "newEvents w w' = (GitStash # copies @ [ClearD3kLogs]) @
      (case d3kProcess w of None \<Rightarrow> [] | Some p \<Rightarrow> [D3kKill p]) @ restoreCommands"
    unfolding w' by (rule newEvents_teardown)
  from tr h show ?thesis
    unfolding ne
    by (simp add: suffix_restore suffix_appendI suffix_ConsI spawn(3) ns restore_no_spawn
        split: option.splits)
next
  case (timeout p fs copies pid)
  from timeout(2) have ns: "D3kSpawn pid \<notin> set copies" for pid
    using stageFiles_no_spawn [of pid env n "getEvalTestFiles env n"] by simp
  from run timeout(5)
  have w': "w' = restoreTree (stopD3k
      ((emit (GitStash # copies @ [ClearD3kLogs, D3kSpawn pid]) w)\<lparr>d3kProcess := Some pid\<rparr>))"
    by simp
  have tr: "trace w' = trace w @ newEvents w w'" and h: "d3kProcess w' = None"
    unfolding w' by (rule trace_teardown, rule teardown_handle)
  have ne: "newEvents w w' = (GitStash # copies @ [ClearD3kLogs, D3kSpawn pid]) @
      D3kKill pid # restoreCommands"
    unfolding w' by (rule newEvents_teardown)
  from tr h show ?thesis
    unfolding ne
    by (auto simp: suffix_restore suffix_appendI suffix_ConsI timeout(3) ns restore_no_spawn)
next
  case (looped p fs copies pid r1 logs fault)
  from looped(2) have ns: "D3kSpawn pid \<notin> set copies" for pid
    using stageFiles_no_spawn [of pid env n "getEvalTestFiles env n"] by simp
  from run looped(6)
  have w': "w' = restoreTree (stopD3k
      ((emit (GitStash # copies @ [ClearD3kLogs, D3kSpawn pid] @ map Attempt logs) w)
         \<lparr>d3kProcess := Some pid\<rparr>))"
    by simp
  have tr: "trace w' = trace w @ newEvents w w'" and h: "d3kProcess w' = None"
    unfolding w' by (rule trace_teardown, rule teardown_handle)
  have ne: "newEvents w w' =
      (GitStash # copies @ [ClearD3kLogs, D3kSpawn pid] @ map Attempt logs) @
      D3kKill pid # restoreCommands"
    unfolding w' by (rule newEvents_teardown)
  from tr h show ?thesis
    unfolding ne
    by (auto simp: suffix_restore suffix_appendI suffix_ConsI looped(3) ns restore_no_spawn)
qed

lemma runEval_guarded:
  assumes run: "runEval env w n = (Inr r, w')"
  shows "(stagingThrow env n \<noteq> None \<longrightarrow> error r = stagingThrow env n) \<and>
    (\<forall>l \<in> set (attemptLogs (newEvents w w')).
       thrownIn env n FirstShot l \<noteq> None \<longrightarrow> error r = thrownIn env n FirstShot l) \<and>
    (stagingThrow env n = None \<longrightarrow>
       (\<exists>l \<in> set (attemptLogs (newEvents w w')). attemptNo l = 1)) \<and>
    (error r \<noteq> None \<longrightarrow> \<not> success r) \<and>
    build r = (lastObserved Build (attemptLogs (newEvents w w')) = Some True) \<and>
    lint r = (lastObserved Lint (attemptLogs (newEvents w w')) = Some True) \<and>
    (getEvalTestFiles env n \<noteq> [] \<longrightarrow>
       tests r = (lastObserved Tests (attemptLogs (newEvents w w')) = Some True)) \<and>
    (\<forall>l \<in> set (attemptLogs (newEvents w w')). \<forall>(g, res) \<in> set (gates l).
       gateRun g (attemptEnv env n (attemptNo l)) = Inr res) \<and>
    trace w' = trace w @ newEvents w w' \<and>
    suffix restoreCommands (newEvents w w') \<and>
    d3kProcess w' = d3kProcess w"
proof (cases rule: runEval_cases [of env n w])
  case (noprompt e)
  with run show ?thesis by simp
next
  case (staging p fs copies e)
  from staging(2) stageFiles_throw [of env n] have st: "stagingThrow env n = Some e" by simp
  from run staging(3) have w': "w' = restoreTree (emit (GitStash # copies) w)"
    and r: "r = freshResult n 1 FirstShot\<lparr>error := Some e, duration := elapsed env n\<rparr>"
    by simp_all
  have lg: "attemptLogs (newEvents w w') = []"
    unfolding w' using stageFiles_copies [OF staging(2)] by (simp add: attemptLogs_restore)
  have tr: "trace w' = trace w @ newEvents w w'" and h: "d3kProcess w' = d3kProcess w"
    unfolding w' by (rule trace_teardown)+
  have ne: "newEvents w w' = (GitStash # copies) @ restoreCommands"
    unfolding w' by (rule newEvents_teardown)
  have "suffix restoreCommands (newEvents w w')"
    unfolding ne by (rule suffix_restore)
  with tr h show ?thesis
    unfolding lg by (simp add: st r freshResult_def success_def)
next
  case (attempted p fs copies r1 l fault)
  from attempted(2) stageFiles_throw [of env n] have st: "stagingThrow env n = None" by simp
  from run attempted(4)
  have w': "w' = restoreTree (emit (GitStash # copies @ [Attempt l]) w)"
    and r: "r = (recordFault fault r1)\<lparr>duration := elapsed env n\<rparr>"
    by simp_all
  have lg: "attemptLogs (newEvents w w') = [l]"
    unfolding w' using stageFiles_copies [OF attempted(2)]
    by (simp add: attemptLogs_restore attemptLogs_append)
  note lgf = firstShotAttempt_log [OF attempted(3)]
  from lgf have e1: "error r1 = None" and no: "attemptNo l = 1"
    by (simp_all add: freshResult_def)
  from e1 r have err: "error r = fault" by (cases fault) simp_all
  from firstShotAttempt_throw [OF attempted(3)] no
  have th: "thrownIn env n FirstShot l = fault"
    by (simp add: thrownIn_def)
  have fail: "\<not> success r" if "error r \<noteq> None"
    using that err lgf r by (auto simp: success_def freshResult_def)
  have fresh:
    "(case ob of None \<Rightarrow> build (freshResult n 1 FirstShot) | Some b \<Rightarrow> b) = (ob = Some True)"
    "(case ob of None \<Rightarrow> lint (freshResult n 1 FirstShot) | Some b \<Rightarrow> b) = (ob = Some True)"
    "(case ob of None \<Rightarrow> tests (freshResult n 1 FirstShot) | Some b \<Rightarrow> b) = (ob = Some True)"
    for ob
    by (cases ob; simp add: freshResult_def)+
  from firstShotAttempt_fields [OF attempted(3)]
  have "build r1 = (case lastObserved Build [l] of None \<Rightarrow> build (freshResult n 1 FirstShot)
                    | Some b \<Rightarrow> b) \<and>
    lint r1 = (case lastObserved Lint [l] of None \<Rightarrow> lint (freshResult n 1 FirstShot)
                    | Some b \<Rightarrow> b) \<and>
    (getEvalTestFiles env n \<noteq> [] \<longrightarrow>
      tests r1 = (case lastObserved Tests [l] of None \<Rightarrow> tests (freshResult n 1 FirstShot)
                    | Some b \<Rightarrow> b))"
    by (intro conjI impI lastObserved_single) simp_all
  with r have fields: "build r = (lastObserved Build [l] = Some True) \<and>
    lint r = (lastObserved Lint [l] = Some True) \<and>
    (getEvalTestFiles env n \<noteq> [] \<longrightarrow> tests r = (lastObserved Tests [l] = Some True))"
    unfolding fresh by simp
  have tie: "\<forall>(g, res) \<in> set (gates l). gateRun g (attemptEnv env n (attemptNo l)) = Inr res"
    using firstShotAttempt_observed [OF attempted(3)] no by auto
  have tr: "trace w' = trace w @ newEvents w w'" and h: "d3kProcess w' = d3kProcess w"
    unfolding w' by (rule trace_teardown)+
  have ne: "newEvents w w' = (GitStash # copies @ [Attempt l]) @ restoreCommands"
    unfolding w' by (rule newEvents_teardown)
  have "suffix restoreCommands (newEvents w w')"
    unfolding ne by (rule suffix_restore)
  with tr h have down: "trace w' = trace w @ newEvents w w' \<and>
    suffix restoreCommands (newEvents w w') \<and> d3kProcess w' = d3kProcess w"
    by simp
  from st err th no fail fields tie down show ?thesis
    unfolding lg by simp
qed

lemma run_outcome:
  "promptFile env n = Some (Inr c) \<Longrightarrow>
   outcome (runEvalFull env w n) \<noteq> None \<and> outcome (runEval env w n) \<noteq> None"
  by (simp add: outcome_def runEvalFull_def runEval_def getEvalPrompt_def Let_def split_beta)

lemma run_unguarded:
  "promptFile env n = None \<or> (\<exists>e. promptFile env n = Some (Inl e)) \<Longrightarrow>
   runEvalFull env w n = (Inl (case promptFile env n of
        None \<Rightarrow> ''Error: Eval '' @ n @ '' not found'' | Some x \<Rightarrow> projl x), w) \<and>
   runEval env w n = (Inl (case promptFile env n of
        None \<Rightarrow> ''Error: Eval '' @ n @ '' not found'' | Some x \<Rightarrow> projl x), w)"
  by (auto simp: runEvalFull_def runEval_def getEvalPrompt_def)

end
